theory Spec2Isabelle
  imports Complex_Main
begin

section \<open>The WebGL context as a call log\<close>

text \<open>
  Every wrapper class of the rendering core holds a reference to one shared
  \<^verbatim>\<open>WebGL2RenderingContext\<close> and acts on the GPU only by calling it. The model keeps
  the context as the list of calls issued so far, oldest first. A WebGL object handle is a
  natural number; \<open>None\<close> is JavaScript's \<^verbatim>\<open>null\<close>.
\<close>

datatype gl_enum =
    RENDERBUFFER | FRAMEBUFFER | COLOR_ATTACHMENT0 | TEXTURE_2D | ARRAY_BUFFER | TRIANGLES

datatype gl_call =
    BindRenderbuffer gl_enum "nat option"
  | DeleteRenderbuffer nat
  | BindFramebuffer gl_enum "nat option"
  | FramebufferTexture2D gl_enum gl_enum gl_enum "nat option" nat
  | FramebufferRenderbuffer gl_enum gl_enum gl_enum "nat option"
  | DeleteFramebuffer nat
  | DeleteShader nat
  | DeleteProgram nat
  | ActiveTexture nat
  | BindTexture gl_enum "nat option"
  | DeleteTexture nat
  | BindBuffer gl_enum "nat option"
  | BufferSubData gl_enum nat "real list" nat nat
  | DeleteBuffer nat
  | BindVertexArray "nat option"
  | DrawArrays gl_enum nat nat
  | DeleteVertexArray nat

text \<open>
  \<open>ActiveTexture u\<close> stands for \<^verbatim>\<open>activeTexture(u + context.TEXTURE0)\<close>.
  \<open>BufferSubData target dstByteOffset srcData srcOffset length\<close> records the source array
  as it is at the time of the call.
\<close>

section \<open>Numbers\<close>

text \<open>
  A JavaScript number is a real here. The two places where the program's rounding decides
  a property are modelled with it: the arithmetic of the projection matrix rounds every
  result to float64, and the \<^verbatim>\<open>Float32Array\<close> that \<^verbatim>\<open>serializeData\<close> returns
  and the one that \<^verbatim>\<open>deserializeData\<close> reads round every element to float32. Elsewhere numbers are carried unrounded: the vertex
  data only passes through the renderer, and the text widths are compared between two loops
  that add the same terms in the same order.

  Rounding is to the nearest value of \<open>p\<close> significant bits, ties to the even
  significand (24 bits for float32, 53 for float64). The exponent is not bounded: overflow
  to an infinity and the subnormal range are left out, as are the infinities and NaN.
\<close>

definition round_ties_even :: "real \<Rightarrow> int" where
  "round_ties_even y =
     (if y - of_int \<lfloor>y\<rfloor> < 1 / 2 then \<lfloor>y\<rfloor>
      else if 1 / 2 < y - of_int \<lfloor>y\<rfloor> then \<lceil>y\<rceil>
      else if even \<lfloor>y\<rfloor> then \<lfloor>y\<rfloor> else \<lceil>y\<rceil>)"

definition round_to_precision :: "nat \<Rightarrow> real \<Rightarrow> real" where
  "round_to_precision p x =
     (if x = 0 then 0
      else (let e = \<lfloor>log 2 \<bar>x\<bar>\<rfloor>;
                ulp = 2 powr of_int (e - int p + 1)
            in ulp * of_int (round_ties_even (x / ulp))))"

definition fround :: "real \<Rightarrow> real" where
  "fround x = round_to_precision 24 x"

definition float64 :: "real \<Rightarrow> real" where
  "float64 x = round_to_precision 53 x"

section \<open>GPU resource wrappers\<close>

record Renderbuffer =
  handle :: "nat option"
  width :: real
  height :: real

record Framebuffer =
  handle :: "nat option"
  width :: real
  height :: real
  attachment :: "nat option"

record Shader =
  handle :: "nat option"

record ShaderProgram =
  handle :: "nat option"

record Texture =
  handle :: "nat option"
  type :: gl_enum

record Buffer =
  handle :: "nat option"
  type :: gl_enum

record VertexArray =
  handle :: "nat option"

text \<open>
  \<open>Framebuffer.attachment\<close> is a reference to a Texture or Renderbuffer object: an
  address in the object store below; \<open>None\<close> is the field the constructor never sets.
  Each \<^verbatim>\<open>delete()\<close> takes the wrapper and the context log and returns both.
\<close>

definition Renderbuffer_bind :: "Renderbuffer \<Rightarrow> gl_call list \<Rightarrow> gl_call list" where
  "Renderbuffer_bind this c = c @ [BindRenderbuffer RENDERBUFFER (Renderbuffer.handle this)]"

definition Renderbuffer_delete :: "Renderbuffer \<times> gl_call list \<Rightarrow> Renderbuffer \<times> gl_call list" where
  "Renderbuffer_delete = (\<lambda>(this, c).
     case Renderbuffer.handle this of
       Some h \<Rightarrow> (this\<lparr>Renderbuffer.handle := None\<rparr>, c @ [DeleteRenderbuffer h])
     | None \<Rightarrow> (this, c))"

definition Framebuffer_bind :: "Framebuffer \<Rightarrow> gl_call list \<Rightarrow> gl_call list" where
  "Framebuffer_bind this c = c @ [BindFramebuffer FRAMEBUFFER (Framebuffer.handle this)]"

definition Framebuffer_unbind :: "Framebuffer \<Rightarrow> gl_call list \<Rightarrow> gl_call list" where
  "Framebuffer_unbind this c = c @ [BindFramebuffer FRAMEBUFFER None]"

definition Framebuffer_delete :: "Framebuffer \<times> gl_call list \<Rightarrow> Framebuffer \<times> gl_call list" where
  "Framebuffer_delete = (\<lambda>(this, c).
     case Framebuffer.handle this of
       Some h \<Rightarrow> (this\<lparr>Framebuffer.handle := None\<rparr>, c @ [DeleteFramebuffer h])
     | None \<Rightarrow> (this, c))"

definition Shader_delete :: "Shader \<times> gl_call list \<Rightarrow> Shader \<times> gl_call list" where
  "Shader_delete = (\<lambda>(this, c).
     case Shader.handle this of
       Some h \<Rightarrow> (this\<lparr>Shader.handle := None\<rparr>, c @ [DeleteShader h])
     | None \<Rightarrow> (this, c))"

definition ShaderProgram_delete :: "ShaderProgram \<times> gl_call list \<Rightarrow> ShaderProgram \<times> gl_call list" where
  "ShaderProgram_delete = (\<lambda>(this, c).
     case ShaderProgram.handle this of
       Some h \<Rightarrow> (this\<lparr>ShaderProgram.handle := None\<rparr>, c @ [DeleteProgram h])
     | None \<Rightarrow> (this, c))"

definition Texture_bind :: "Texture \<Rightarrow> nat \<Rightarrow> gl_call list \<Rightarrow> gl_call list" where
  "Texture_bind this textureUnit c =
     c @ [ActiveTexture textureUnit, BindTexture (Texture.type this) (Texture.handle this)]"

definition Texture_delete :: "Texture \<times> gl_call list \<Rightarrow> Texture \<times> gl_call list" where
  "Texture_delete = (\<lambda>(this, c).
     case Texture.handle this of
       Some h \<Rightarrow> (this\<lparr>Texture.handle := None\<rparr>, c @ [DeleteTexture h])
     | None \<Rightarrow> (this, c))"

definition Buffer_bind :: "Buffer \<Rightarrow> gl_call list \<Rightarrow> gl_call list" where
  "Buffer_bind this c = c @ [BindBuffer (Buffer.type this) (Buffer.handle this)]"

definition Buffer_setDataRange :: "Buffer \<Rightarrow> real list \<Rightarrow> nat \<Rightarrow> nat \<Rightarrow> gl_call list \<Rightarrow> gl_call list" where
  "Buffer_setDataRange this data offset count c =
     Buffer_bind this c @ [BufferSubData (Buffer.type this) offset data 0 count]"

definition Buffer_delete :: "Buffer \<times> gl_call list \<Rightarrow> Buffer \<times> gl_call list" where
  "Buffer_delete = (\<lambda>(this, c).
     case Buffer.handle this of
       Some h \<Rightarrow> (this\<lparr>Buffer.handle := None\<rparr>, c @ [DeleteBuffer h])
     | None \<Rightarrow> (this, c))"

definition VertexArray_bind :: "VertexArray \<Rightarrow> gl_call list \<Rightarrow> gl_call list" where
  "VertexArray_bind this c = c @ [BindVertexArray (VertexArray.handle this)]"

definition VertexArray_unnbind :: "VertexArray \<Rightarrow> gl_call list \<Rightarrow> gl_call list" where
  "VertexArray_unnbind this c = c @ [BindVertexArray None]"

definition VertexArray_draw :: "VertexArray \<Rightarrow> nat \<Rightarrow> gl_call list \<Rightarrow> gl_call list" where
  "VertexArray_draw this vertexCount c =
     VertexArray_unnbind this (VertexArray_bind this c @ [DrawArrays TRIANGLES 0 vertexCount])"

definition VertexArray_delete :: "VertexArray \<times> gl_call list \<Rightarrow> VertexArray \<times> gl_call list" where
  "VertexArray_delete = (\<lambda>(this, c).
     case VertexArray.handle this of
       Some h \<Rightarrow> (this\<lparr>VertexArray.handle := None\<rparr>, c @ [DeleteVertexArray h])
     | None \<Rightarrow> (this, c))"

subsection \<open>Framebuffer attachments and the object store\<close>

text \<open>
  An attachment is shared between its creator and the framebuffer, and
  \<^verbatim>\<open>attachment?.delete()\<close> mutates it in place, so attachments live in a store
  from addresses to objects. \<^verbatim>\<open>bind()\<close>, \<^verbatim>\<open>delete()\<close> and
  \<^verbatim>\<open>.handle\<close> on a reference dispatch on the class of the object found there.
\<close>

datatype gpu_object = TextureObj Texture | RenderbufferObj Renderbuffer

fun object_handle :: "gpu_object \<Rightarrow> nat option" where
  "object_handle (TextureObj t) = Texture.handle t"
| "object_handle (RenderbufferObj rb) = Renderbuffer.handle rb"

fun object_bind :: "gpu_object \<Rightarrow> gl_call list \<Rightarrow> gl_call list" where
  "object_bind (TextureObj t) c = Texture_bind t 0 c"
| "object_bind (RenderbufferObj rb) c = Renderbuffer_bind rb c"

fun object_delete :: "gpu_object \<times> gl_call list \<Rightarrow> gpu_object \<times> gl_call list" where
  "object_delete (TextureObj t, c) = (case Texture_delete (t, c) of (t', c') \<Rightarrow> (TextureObj t', c'))"
| "object_delete (RenderbufferObj rb, c) =
     (case Renderbuffer_delete (rb, c) of (rb', c') \<Rightarrow> (RenderbufferObj rb', c'))"

record fb_state =
  framebuffer :: Framebuffer
  objects :: "nat \<Rightarrow> gpu_object"
  calls :: "gl_call list"

text \<open>
  The body of \<^verbatim>\<open>attachTexture\<close>, one state transformer per statement, so that the
  states between the statements can be inspected. The local constant
  \<^verbatim>\<open>attachment\<close> is read from the entry state.
\<close>

definition attachTexture_body :: "nat \<Rightarrow> fb_state \<Rightarrow> (fb_state \<Rightarrow> fb_state) list" where
  "attachTexture_body texture s0 =
     (let attachment = Framebuffer.attachment (framebuffer s0) in
      [\<lambda>s. s\<lparr>calls := Framebuffer_bind (framebuffer s) (calls s)\<rparr>,
       \<lambda>s. s\<lparr>calls := object_bind (objects s texture) (calls s)\<rparr>,
       \<lambda>s. s\<lparr>calls := calls s @ [FramebufferTexture2D FRAMEBUFFER COLOR_ATTACHMENT0 TEXTURE_2D
                                      (object_handle (objects s texture)) 0]\<rparr>,
       \<lambda>s. s\<lparr>framebuffer := (framebuffer s)\<lparr>attachment := Some texture\<rparr>\<rparr>,
       \<lambda>s. s\<lparr>calls := Framebuffer_unbind (framebuffer s) (calls s)\<rparr>,
       \<lambda>s. (case attachment of
               None \<Rightarrow> s
             | Some a \<Rightarrow> (case object_delete (objects s a, calls s) of
                           (obj, c) \<Rightarrow> s\<lparr>objects := (objects s)(a := obj), calls := c\<rparr>))])"

definition attachRenderbuffer_body :: "nat \<Rightarrow> fb_state \<Rightarrow> (fb_state \<Rightarrow> fb_state) list" where
  "attachRenderbuffer_body renderbuffer s0 =
     (let attachment = Framebuffer.attachment (framebuffer s0) in
      [\<lambda>s. s\<lparr>calls := Framebuffer_bind (framebuffer s) (calls s)\<rparr>,
       \<lambda>s. s\<lparr>calls := object_bind (objects s renderbuffer) (calls s)\<rparr>,
       \<lambda>s. s\<lparr>calls := calls s @ [FramebufferRenderbuffer FRAMEBUFFER COLOR_ATTACHMENT0 RENDERBUFFER
                                      (object_handle (objects s renderbuffer))]\<rparr>,
       \<lambda>s. s\<lparr>framebuffer := (framebuffer s)\<lparr>attachment := Some renderbuffer\<rparr>\<rparr>,
       \<lambda>s. s\<lparr>calls := Framebuffer_unbind (framebuffer s) (calls s)\<rparr>,
       \<lambda>s. (case attachment of
               None \<Rightarrow> s
             | Some a \<Rightarrow> (case object_delete (objects s a, calls s) of
                           (obj, c) \<Rightarrow> s\<lparr>objects := (objects s)(a := obj), calls := c\<rparr>))])"

definition run_statements :: "('s \<Rightarrow> 's) list \<Rightarrow> 's \<Rightarrow> 's" where
  "run_statements body s = fold (\<lambda>statement. statement) body s"

definition Framebuffer_attachTexture :: "nat \<Rightarrow> fb_state \<Rightarrow> fb_state" where
  "Framebuffer_attachTexture texture s = run_statements (attachTexture_body texture s) s"

definition Framebuffer_attachRenderbuffer :: "nat \<Rightarrow> fb_state \<Rightarrow> fb_state" where
  "Framebuffer_attachRenderbuffer renderbuffer s =
     run_statements (attachRenderbuffer_body renderbuffer s) s"

text \<open>The state after the first \<open>k\<close> statements of a body.\<close>

definition state_after :: "nat \<Rightarrow> ('s \<Rightarrow> 's) list \<Rightarrow> 's \<Rightarrow> 's" where
  "state_after k body s = run_statements (take k body) s"

section \<open>Mesh\<close>

record Mesh =
  vertexCount :: nat
  vertexArray :: VertexArray
  vertexBuffer :: Buffer

definition Mesh_setDataRange :: "Mesh \<Rightarrow> real list \<Rightarrow> nat \<Rightarrow> nat \<Rightarrow> gl_call list \<Rightarrow> gl_call list" where
  "Mesh_setDataRange this data offset count c =
     Buffer_setDataRange (vertexBuffer this) data offset count c"

text \<open>
  \<^verbatim>\<open>draw(vertexCount = null)\<close> draws \<^verbatim>\<open>vertexCount || this.vertexCount\<close>:
  the mesh's own count when the argument is missing, null or zero. Here and below a
  parameter or local whose name is also a field name is written with a prime.
\<close>

definition Mesh_draw :: "Mesh \<Rightarrow> nat option \<Rightarrow> gl_call list \<Rightarrow> gl_call list" where
  "Mesh_draw this vertexCount' c =
     VertexArray_draw (vertexArray this)
       (case vertexCount' of
          None \<Rightarrow> Mesh.vertexCount this
        | Some n \<Rightarrow> if n = 0 then Mesh.vertexCount this else n) c"

section \<open>Font\<close>

record Glyph =
  charCode :: real
  advance :: real
  planeLeft :: real
  planeBottom :: real
  planeRight :: real
  planeTop :: real
  atlasLeft :: real
  atlasBottom :: real
  atlasRight :: real
  atlasTop :: real

text \<open>
  \<^verbatim>\<open>this.glyphs\<close> is a plain JavaScript object used as a table from numbers to
  glyphs. The model keeps it as the list of its entries in property order, since
  \<^verbatim>\<open>Object.values\<close> enumerates it: keys that are array indices (integers from 0
  to \<open>2^32 - 2\<close>) come first in ascending order, the other keys follow in the order of
  their creation, and assigning to an existing key keeps its place.
\<close>

definition is_array_index :: "real \<Rightarrow> bool" where
  "is_array_index k = (0 \<le> k \<and> k < 4294967295 \<and> k = of_int \<lfloor>k\<rfloor>)"

fun set_property :: "real \<Rightarrow> 'v \<Rightarrow> (real \<times> 'v) list \<Rightarrow> (real \<times> 'v) list" where
  "set_property k v [] = [(k, v)]"
| "set_property k v ((k', v') # rest) =
     (if k' = k then (k, v) # rest
      else if is_array_index k \<and> (if is_array_index k' then k < k' else True)
        then (k, v) # (k', v') # rest
      else (k', v') # set_property k v rest)"

definition get_property :: "(real \<times> 'v) list \<Rightarrow> real \<Rightarrow> 'v option" where
  "get_property obj k = map_of obj k"

definition object_values :: "(real \<times> 'v) list \<Rightarrow> 'v list" where
  "object_values obj = map snd obj"

record Font =
  glyphs :: "(real \<times> Glyph) list"

definition Font_new :: Font where
  "Font_new = \<lparr>glyphs = []\<rparr>"

text \<open>
  \<^verbatim>\<open>new Float32Array(data)\<close> stores each number of \<^verbatim>\<open>data\<close> rounded to float32
  (numbers that are float32 values already, as those of another \<^verbatim>\<open>Float32Array\<close>,
  are stored as they are).
\<close>

definition Float32Array_from :: "real list \<Rightarrow> real list" where
  "Float32Array_from data = map fround data"

text \<open>
  Reading a \<^verbatim>\<open>Float32Array\<close> past its end yields \<^verbatim>\<open>undefined\<close>. A glyph
  read there would get fields that are not numbers; the model has no such glyph and
  reports \<open>None\<close> for the whole table instead.
\<close>

definition read_glyph :: "real list \<Rightarrow> nat \<Rightarrow> Glyph option" where
  "read_glyph buffer index =
     (if index + 10 \<le> length buffer then
        Some \<lparr>charCode = buffer ! index, advance = buffer ! (index + 1),
              planeLeft = buffer ! (index + 2), planeBottom = buffer ! (index + 3),
              planeRight = buffer ! (index + 4), planeTop = buffer ! (index + 5),
              atlasLeft = buffer ! (index + 6), atlasBottom = buffer ! (index + 7),
              atlasRight = buffer ! (index + 8), atlasTop = buffer ! (index + 9)\<rparr>
      else None)"

function deserializeData_loop :: "real \<Rightarrow> real list \<Rightarrow> nat \<Rightarrow> nat \<Rightarrow> Font \<Rightarrow> Font option" where
  "deserializeData_loop count buffer i index this =
     (if real i < count then
        (case read_glyph buffer index of
           None \<Rightarrow> None
         | Some glyph \<Rightarrow>
             deserializeData_loop count buffer (i + 1) (index + 10)
               (this\<lparr>glyphs := set_property (charCode glyph) glyph (glyphs this)\<rparr>))
      else Some this)"
  by pat_completeness auto
termination
  by (relation "measure (\<lambda>(count, buffer, i, index, this). nat \<lceil>count\<rceil> - i)") (auto, linarith)

text \<open>
  On an empty buffer \<^verbatim>\<open>count\<close> is \<^verbatim>\<open>undefined\<close>, the test
  \<^verbatim>\<open>0 < undefined\<close> is false and the loop body never runs.
\<close>

definition Font_deserializeData :: "real list \<Rightarrow> Font \<Rightarrow> Font option" where
  "Font_deserializeData data this =
     (let buffer = Float32Array_from data in
      if 0 < length buffer then deserializeData_loop (buffer ! 0) buffer 0 1 this
      else Some this)"

definition Font_serializeData :: "Font \<Rightarrow> real list" where
  "Font_serializeData this =
     (let glyphs' = object_values (glyphs this);
          data = fold (\<lambda>glyph data. data @
                   [charCode glyph, advance glyph, planeLeft glyph, planeBottom glyph,
                    planeRight glyph, planeTop glyph, atlasLeft glyph, atlasBottom glyph,
                    atlasRight glyph, atlasTop glyph])
                 glyphs' [real (length glyphs')]
      in Float32Array_from data)"

section \<open>Renderer\<close>

definition MAX_VERTICES :: nat where
  "MAX_VERTICES = 65535"

definition VERTEX_ELEMENTS :: nat where
  "VERTEX_ELEMENTS = 8"

text \<open>
  \<open>gl\<close> is the log of the shared context (\<^verbatim>\<open>this.context\<close>). \<open>vertices\<close> is the
  scratch \<^verbatim>\<open>Float32Array\<close>, of fixed length
  \<open>VERTEX_ELEMENTS * MAX_VERTICES\<close> in every renderer the constructor builds.
  \<open>vertexCount\<close> is a number from the first \<^verbatim>\<open>beginGeometry()\<close> on; the model
  covers those states.
\<close>

record Renderer =
  gl :: "gl_call list"
  vertices :: "real list"
  vertexCount :: nat
  mesh :: Mesh
  width :: real
  height :: real
  matrix :: "real list"

text \<open>
  Every operation of the matrix computation rounds its result to float64. JavaScript
  divides by zero to an infinity or NaN, which the reals lack: the matrix below is the
  source's for \<open>left \<noteq> right\<close>, \<open>bottom \<noteq> top\<close> and \<open>near \<noteq> far\<close>.
\<close>

definition Renderer_createOrthographicOffCenter ::
  "real \<Rightarrow> real \<Rightarrow> real \<Rightarrow> real \<Rightarrow> real \<Rightarrow> real \<Rightarrow> real list" where
  "Renderer_createOrthographicOffCenter left right bottom top' near far =
     (let leftRight = float64 (1 / float64 (left - right));
          bottomTop = float64 (1 / float64 (bottom - top'));
          nearFar = float64 (1 / float64 (near - far));
          scaleX = float64 (- 2 * leftRight);
          scaleY = float64 (- 2 * bottomTop);
          scaleZ = float64 (2 * nearFar);
          translateX = float64 (float64 (left + right) * leftRight);
          translateY = float64 (float64 (top' + bottom) * bottomTop);
          translateZ = float64 (float64 (far + near) * nearFar)
      in [scaleX, 0, 0, 0,
          0, scaleY, 0, 0,
          0, 0, scaleZ, 0,
          translateX, translateY, translateZ, 1])"


definition Renderer_beginGeometry :: "Renderer \<Rightarrow> Renderer" where
  "Renderer_beginGeometry this = this\<lparr>vertexCount := 0\<rparr>"

text \<open>
  \<^verbatim>\<open>endGeometry()\<close> returns \<^verbatim>\<open>undefined\<close> from its early return and
  \<^verbatim>\<open>this\<close> otherwise: \<open>None\<close> is the early return, which leaves the renderer as it
  was; \<open>Some\<close> carries the renderer after the upload and the draw call.
\<close>

definition Renderer_endGeometry :: "Renderer \<Rightarrow> Renderer option" where
  "Renderer_endGeometry this =
     (if vertexCount this = 0 then None
      else Some (this\<lparr>gl :=
        Mesh_draw (mesh this) (Some (vertexCount this))
          (Mesh_setDataRange (mesh this) (vertices this) 0
             (VERTEX_ELEMENTS * vertexCount this) (gl this))\<rparr>))"

text \<open>A call of \<^verbatim>\<open>endGeometry()\<close> as a statement, its result dropped.\<close>

definition endGeometry_statement :: "Renderer \<Rightarrow> Renderer" where
  "endGeometry_statement this =
     (case Renderer_endGeometry this of None \<Rightarrow> this | Some this' \<Rightarrow> this')"

text \<open>
  A store into a \<^verbatim>\<open>Float32Array\<close> at an index past its end is ignored, as
  \<open>xs[i := v]\<close> is in HOL.
\<close>

definition Renderer_addVertex ::
  "real \<Rightarrow> real \<Rightarrow> real \<Rightarrow> real \<Rightarrow> real \<Rightarrow> real \<Rightarrow> real \<Rightarrow> real \<Rightarrow> Renderer \<Rightarrow> Renderer" where
  "Renderer_addVertex x y u v r g b a this =
     (let arguments = [x, y, u, v, r, g, b, a] in
      this\<lparr>vertices :=
             fold (\<lambda>i vs. vs[VERTEX_ELEMENTS * vertexCount this + i := arguments ! i])
                  [0..<VERTEX_ELEMENTS] (vertices this),
           vertexCount := vertexCount this + 1\<rparr>)"

text \<open>
  The shape emitters return \<^verbatim>\<open>this\<close>, or throw a TypeError where
  \<^verbatim>\<open>this.endGeometry().beginGeometry()\<close> meets the \<^verbatim>\<open>undefined\<close> of the early
  return: \<open>None\<close> is the throw.
\<close>

definition Renderer_drawTriangle ::
  "real \<Rightarrow> real \<Rightarrow> real \<Rightarrow> real \<Rightarrow> real \<Rightarrow> real \<Rightarrow> real \<Rightarrow> real \<Rightarrow>
   real \<Rightarrow> real \<Rightarrow> real \<Rightarrow> real \<Rightarrow> real \<Rightarrow> real \<Rightarrow> real \<Rightarrow> real \<Rightarrow> Renderer \<Rightarrow> Renderer option" where
  "Renderer_drawTriangle ax ay au av bx by bu bv cx cy cu cv r g b a this =
     (case (if vertexCount this + 3 \<ge> MAX_VERTICES
            then map_option Renderer_beginGeometry (Renderer_endGeometry this)
            else Some this) of
        None \<Rightarrow> None
      | Some this' \<Rightarrow>
          Some (Renderer_addVertex cx cy cu cv r g b a
                 (Renderer_addVertex bx by bu bv r g b a
                   (Renderer_addVertex ax ay au av r g b a this'))))"

definition Renderer_drawQuad ::
  "real \<Rightarrow> real \<Rightarrow> real \<Rightarrow> real \<Rightarrow> real \<Rightarrow> real \<Rightarrow> real \<Rightarrow> real \<Rightarrow>
   real \<Rightarrow> real \<Rightarrow> real \<Rightarrow> real \<Rightarrow> real \<Rightarrow> real \<Rightarrow> real \<Rightarrow> real \<Rightarrow>
   real \<Rightarrow> real \<Rightarrow> real \<Rightarrow> real \<Rightarrow> Renderer \<Rightarrow> Renderer option" where
  "Renderer_drawQuad ax ay au av bx by bu bv cx cy cu cv dx dy du dv r g b a this =
     Option.bind (Renderer_drawTriangle ax ay au av bx by bu bv cx cy cu cv r g b a this)
       (Renderer_drawTriangle ax ay au av cx cy cu cv dx dy du dv r g b a)"

definition Renderer_drawRectangle ::
  "real \<Rightarrow> real \<Rightarrow> real \<Rightarrow> real \<Rightarrow> real \<Rightarrow> real \<Rightarrow> real \<Rightarrow> real \<Rightarrow>
   real \<Rightarrow> real \<Rightarrow> real \<Rightarrow> real \<Rightarrow> Renderer \<Rightarrow> Renderer option" where
  "Renderer_drawRectangle x y width' height' u0 v0 u1 v1 r g b a this =
     (let ax = x; ay = y;
          bx = x + width'; by = y;
          cx = x + width'; cy = y + height';
          dx = x; dy = y + height'
      in Renderer_drawQuad ax ay u0 v0 bx by u1 v0 cx cy u1 v1 dx dy u0 v1 r g b a this)"

definition Renderer_drawRectangleOffCenter ::
  "real \<Rightarrow> real \<Rightarrow> real \<Rightarrow> real \<Rightarrow> real \<Rightarrow> real \<Rightarrow> real \<Rightarrow> real \<Rightarrow>
   real \<Rightarrow> real \<Rightarrow> real \<Rightarrow> real \<Rightarrow> Renderer \<Rightarrow> Renderer option" where
  "Renderer_drawRectangleOffCenter x y width' height' u0 v0 u1 v1 r g b a this =
     (let halfWidth = width' / 2; halfHeight = height' / 2;
          ax = x - halfWidth; ay = y - halfHeight;
          bx = x + halfWidth; by = y - halfHeight;
          cx = x + halfWidth; cy = y + halfHeight;
          dx = x - halfWidth; dy = y + halfHeight
      in Renderer_drawQuad ax ay u0 v0 bx by u1 v0 cx cy u1 v1 dx dy u0 v1 r g b a this)"

definition Renderer_drawRotatedRectangleOffCenter ::
  "real \<Rightarrow> real \<Rightarrow> real \<Rightarrow> real \<Rightarrow> real \<Rightarrow> real \<Rightarrow> real \<Rightarrow> real \<Rightarrow> real \<Rightarrow>
   real \<Rightarrow> real \<Rightarrow> real \<Rightarrow> real \<Rightarrow> Renderer \<Rightarrow> Renderer option" where
  "Renderer_drawRotatedRectangleOffCenter x y width' height' angle u0 v0 u1 v1 r g b a this =
     (let halfWidth = width' / 2; halfHeight = height' / 2;
          sinA = sin angle; cosA = cos angle;
          ax0 = - halfWidth; ay0 = - halfHeight;
          bx0 = halfWidth; by0 = - halfHeight;
          cx0 = halfWidth; cy0 = halfHeight;
          dx0 = - halfWidth; dy0 = halfHeight;
          ax = x + cosA * ax0 - sinA * ay0; ay = y + sinA * ax0 + cosA * ay0;
          bx = x + cosA * bx0 - sinA * by0; by = y + sinA * bx0 + cosA * by0;
          cx = x + cosA * cx0 - sinA * cy0; cy = y + sinA * cx0 + cosA * cy0;
          dx = x + cosA * dx0 - sinA * dy0; dy = y + sinA * dx0 + cosA * dy0
      in Renderer_drawQuad ax ay u0 v0 bx by u1 v0 cx cy u1 v1 dx dy u0 v1 r g b a this)"

subsection \<open>Text\<close>

text \<open>
  A string is the list of its UTF-16 code units, which is what
  \<^verbatim>\<open>str.charCodeAt(i)\<close> reads. \<^verbatim>\<open>font.glyphs[charCode]\<close> is
  \<^verbatim>\<open>undefined\<close> for a key the table lacks.
\<close>

definition Renderer_drawChar ::
  "Font \<Rightarrow> real \<Rightarrow> real \<Rightarrow> real \<Rightarrow> real \<Rightarrow> real \<Rightarrow> real \<Rightarrow> real \<Rightarrow> real \<Rightarrow> Renderer \<Rightarrow> Renderer option" where
  "Renderer_drawChar font x y charCode' size' r g b a this =
     (case get_property (glyphs font) charCode' of
        None \<Rightarrow> Some this
      | Some glyph \<Rightarrow>
          Renderer_drawRectangle
            (x + size' * planeLeft glyph)
            (y + size' * planeTop glyph)
            (size' * (planeRight glyph - planeLeft glyph))
            (size' * (planeBottom glyph - planeTop glyph))
            (atlasLeft glyph) (atlasTop glyph) (atlasRight glyph) (atlasBottom glyph)
            r g b a this)"

text \<open>
  The loop of \<^verbatim>\<open>drawString\<close>, over the code units still to draw; it carries the
  local \<^verbatim>\<open>offset\<close> and returns it beside the renderer.
\<close>

fun drawString_loop ::
  "Font \<Rightarrow> real \<Rightarrow> real \<Rightarrow> real \<Rightarrow> real \<Rightarrow> real \<Rightarrow> real \<Rightarrow> real \<Rightarrow>
   nat list \<Rightarrow> real \<Rightarrow> Renderer \<Rightarrow> (Renderer \<times> real) option" where
  "drawString_loop font x y size' r g b a [] offset this = Some (this, offset)"
| "drawString_loop font x y size' r g b a (charCode' # str) offset this =
     (case get_property (glyphs font) (real charCode') of
        None \<Rightarrow> drawString_loop font x y size' r g b a str offset this
      | Some glyph \<Rightarrow>
          (case Renderer_drawChar font (x + offset) y (real charCode') size' r g b a this of
             None \<Rightarrow> None
           | Some this' \<Rightarrow>
               drawString_loop font x y size' r g b a str (offset + size' * advance glyph) this'))"

definition Renderer_drawString ::
  "Font \<Rightarrow> real \<Rightarrow> real \<Rightarrow> nat list \<Rightarrow> real \<Rightarrow> real \<Rightarrow> real \<Rightarrow> real \<Rightarrow> real \<Rightarrow> Renderer \<Rightarrow> Renderer option" where
  "Renderer_drawString font x y str size' r g b a this =
     map_option fst (drawString_loop font x y size' r g b a str 0 this)"

definition Renderer_measureString :: "Font \<Rightarrow> nat list \<Rightarrow> real \<Rightarrow> real" where
  "Renderer_measureString font str size' =
     fold (\<lambda>charCode' width'.
             case get_property (glyphs font) (real charCode') of
               None \<Rightarrow> width'
             | Some glyph \<Rightarrow> width' + size' * advance glyph)
          str 0"

definition Renderer_drawStringOffCenter ::
  "Font \<Rightarrow> real \<Rightarrow> real \<Rightarrow> nat list \<Rightarrow> real \<Rightarrow> real \<Rightarrow> real \<Rightarrow> real \<Rightarrow> real \<Rightarrow> Renderer \<Rightarrow> Renderer option" where
  "Renderer_drawStringOffCenter font x y str size' r g b a this =
     (let width' = Renderer_measureString font str size' in
      Renderer_drawString font (x - width' / 2) y str size' r g b a this)"

section \<open>SpriteBatch\<close>

text \<open>
  A recorded command is a method name of the renderer with its argument list. The draw
  methods of the batch record eight names, each with the arguments of the renderer method
  of that name, so a command is a value of the datatype below and the reflective call
  \<^verbatim>\<open>this.renderer[name](...args)\<close> is the dispatch on its constructor.
\<close>

datatype command =
    DrawTriangle real real real real real real real real real real real real real real real real
  | DrawQuad real real real real real real real real real real real real real real real real real real real real
  | DrawRectangle real real real real real real real real real real real real
  | DrawRectangleOffCenter real real real real real real real real real real real real
  | DrawRotatedRectangleOffCenter real real real real real real real real real real real real real
  | DrawChar Font real real real real real real real real
  | DrawString Font real real "nat list" real real real real real
  | DrawStringOffCenter Font real real "nat list" real real real real real

fun Renderer_call :: "command \<Rightarrow> Renderer \<Rightarrow> Renderer option" where
  "Renderer_call (DrawTriangle ax ay au av bx by bu bv cx cy cu cv r g b a) this =
     Renderer_drawTriangle ax ay au av bx by bu bv cx cy cu cv r g b a this"
| "Renderer_call (DrawQuad ax ay au av bx by bu bv cx cy cu cv dx dy du dv r g b a) this =
     Renderer_drawQuad ax ay au av bx by bu bv cx cy cu cv dx dy du dv r g b a this"
| "Renderer_call (DrawRectangle x y width' height' u0 v0 u1 v1 r g b a) this =
     Renderer_drawRectangle x y width' height' u0 v0 u1 v1 r g b a this"
| "Renderer_call (DrawRectangleOffCenter x y width' height' u0 v0 u1 v1 r g b a) this =
     Renderer_drawRectangleOffCenter x y width' height' u0 v0 u1 v1 r g b a this"
| "Renderer_call (DrawRotatedRectangleOffCenter x y width' height' angle u0 v0 u1 v1 r g b a) this =
     Renderer_drawRotatedRectangleOffCenter x y width' height' angle u0 v0 u1 v1 r g b a this"
| "Renderer_call (DrawChar font x y charCode' size' r g b a) this =
     Renderer_drawChar font x y charCode' size' r g b a this"
| "Renderer_call (DrawString font x y str size' r g b a) this =
     Renderer_drawString font x y str size' r g b a this"
| "Renderer_call (DrawStringOffCenter font x y str size' r g b a) this =
     Renderer_drawStringOffCenter font x y str size' r g b a this"

text \<open>
  \<open>buckets\<close> is the \<^verbatim>\<open>Map\<close> from texture objects to command arrays, as the list of
  its entries in insertion order, which is the order \<^verbatim>\<open>entries()\<close> iterates. The
  keys are compared by identity, so a texture is the address of a \<open>Texture\<close> object;
  \<^verbatim>\<open>end()\<close> reads the objects through a store \<open>textures\<close>.
\<close>

record SpriteBatch =
  renderer :: Renderer
  buckets :: "(nat \<times> command list) list"

definition SpriteBatch_begin :: "SpriteBatch \<Rightarrow> SpriteBatch" where
  "SpriteBatch_begin this = this\<lparr>buckets := []\<rparr>"

definition SpriteBatch_addCommand :: "nat \<Rightarrow> command \<Rightarrow> SpriteBatch \<Rightarrow> SpriteBatch" where
  "SpriteBatch_addCommand texture command' this =
     (if texture \<in> set (map fst (buckets this))
      then this\<lparr>buckets :=
             map (\<lambda>(t, commands). if t = texture then (t, commands @ [command']) else (t, commands))
                 (buckets this)\<rparr>
      else this\<lparr>buckets := buckets this @ [(texture, [command'])]\<rparr>)"

text \<open>The inner loop of \<^verbatim>\<open>end()\<close>, over the commands of one bucket.\<close>

fun replay :: "command list \<Rightarrow> Renderer \<Rightarrow> Renderer option" where
  "replay [] this = Some this"
| "replay (command' # commands) this =
     (case Renderer_call command' this of
        None \<Rightarrow> None
      | Some this' \<Rightarrow> replay commands this')"

text \<open>The outer loop of \<^verbatim>\<open>end()\<close>, over the entries of the map.\<close>

fun end_loop :: "(nat \<Rightarrow> Texture) \<Rightarrow> (nat \<times> command list) list \<Rightarrow> Renderer \<Rightarrow> Renderer option" where
  "end_loop textures [] this = Some this"
| "end_loop textures ((texture, commands) # rest) this =
     (case replay commands
             (Renderer_beginGeometry (this\<lparr>gl := Texture_bind (textures texture) 0 (gl this)\<rparr>)) of
        None \<Rightarrow> None
      | Some this' \<Rightarrow> end_loop textures rest (endGeometry_statement this'))"

text \<open>
  \<^verbatim>\<open>end()\<close> returns \<^verbatim>\<open>this\<close>; \<open>None\<close> is a TypeError thrown by a replayed
  emitter.
\<close>

definition SpriteBatch_end :: "(nat \<Rightarrow> Texture) \<Rightarrow> SpriteBatch \<Rightarrow> SpriteBatch option" where
  "SpriteBatch_end textures this =
     map_option (\<lambda>renderer'. this\<lparr>renderer := renderer'\<rparr>)
       (end_loop textures (buckets this) (renderer this))"

text \<open>The draw methods of the batch: each records the command of its own name.\<close>

definition SpriteBatch_drawTriangle ::
  "nat \<Rightarrow> real \<Rightarrow> real \<Rightarrow> real \<Rightarrow> real \<Rightarrow> real \<Rightarrow> real \<Rightarrow> real \<Rightarrow> real \<Rightarrow> real \<Rightarrow> real \<Rightarrow> real \<Rightarrow> real \<Rightarrow> real \<Rightarrow> real \<Rightarrow> real \<Rightarrow> real \<Rightarrow> SpriteBatch \<Rightarrow> SpriteBatch" where
  "SpriteBatch_drawTriangle texture ax ay au av bx by bu bv cx cy cu cv r g b a this =
     SpriteBatch_addCommand texture (DrawTriangle ax ay au av bx by bu bv cx cy cu cv r g b a) this"

definition SpriteBatch_drawQuad ::
  "nat \<Rightarrow> real \<Rightarrow> real \<Rightarrow> real \<Rightarrow> real \<Rightarrow> real \<Rightarrow> real \<Rightarrow> real \<Rightarrow> real \<Rightarrow> real \<Rightarrow> real \<Rightarrow> real \<Rightarrow> real \<Rightarrow> real \<Rightarrow> real \<Rightarrow> real \<Rightarrow> real \<Rightarrow> real \<Rightarrow> real \<Rightarrow> real \<Rightarrow> real \<Rightarrow> SpriteBatch \<Rightarrow> SpriteBatch" where
  "SpriteBatch_drawQuad texture ax ay au av bx by bu bv cx cy cu cv dx dy du dv r g b a this =
     SpriteBatch_addCommand texture (DrawQuad ax ay au av bx by bu bv cx cy cu cv dx dy du dv r g b a) this"

definition SpriteBatch_drawRectangle ::
  "nat \<Rightarrow> real \<Rightarrow> real \<Rightarrow> real \<Rightarrow> real \<Rightarrow> real \<Rightarrow> real \<Rightarrow> real \<Rightarrow> real \<Rightarrow> real \<Rightarrow> real \<Rightarrow> real \<Rightarrow> real \<Rightarrow> SpriteBatch \<Rightarrow> SpriteBatch" where
  "SpriteBatch_drawRectangle texture x y width' height' u0 v0 u1 v1 r g b a this =
     SpriteBatch_addCommand texture (DrawRectangle x y width' height' u0 v0 u1 v1 r g b a) this"

definition SpriteBatch_drawRectangleOffCenter ::
  "nat \<Rightarrow> real \<Rightarrow> real \<Rightarrow> real \<Rightarrow> real \<Rightarrow> real \<Rightarrow> real \<Rightarrow> real \<Rightarrow> real \<Rightarrow> real \<Rightarrow> real \<Rightarrow> real \<Rightarrow> real \<Rightarrow> SpriteBatch \<Rightarrow> SpriteBatch" where
  "SpriteBatch_drawRectangleOffCenter texture x y width' height' u0 v0 u1 v1 r g b a this =
     SpriteBatch_addCommand texture (DrawRectangleOffCenter x y width' height' u0 v0 u1 v1 r g b a) this"

definition SpriteBatch_drawRotatedRectangleOffCenter ::
  "nat \<Rightarrow> real \<Rightarrow> real \<Rightarrow> real \<Rightarrow> real \<Rightarrow> real \<Rightarrow> real \<Rightarrow> real \<Rightarrow> real \<Rightarrow> real \<Rightarrow> real \<Rightarrow> real \<Rightarrow> real \<Rightarrow> real \<Rightarrow> SpriteBatch \<Rightarrow> SpriteBatch" where
  "SpriteBatch_drawRotatedRectangleOffCenter texture x y width' height' angle u0 v0 u1 v1 r g b a this =
     SpriteBatch_addCommand texture (DrawRotatedRectangleOffCenter x y width' height' angle u0 v0 u1 v1 r g b a) this"

definition SpriteBatch_drawChar ::
  "nat \<Rightarrow> Font \<Rightarrow> real \<Rightarrow> real \<Rightarrow> real \<Rightarrow> real \<Rightarrow> real \<Rightarrow> real \<Rightarrow> real \<Rightarrow> real \<Rightarrow> SpriteBatch \<Rightarrow> SpriteBatch" where
  "SpriteBatch_drawChar texture font x y charCode' size' r g b a this =
     SpriteBatch_addCommand texture (DrawChar font x y charCode' size' r g b a) this"

definition SpriteBatch_drawString ::
  "nat \<Rightarrow> Font \<Rightarrow> real \<Rightarrow> real \<Rightarrow> nat list \<Rightarrow> real \<Rightarrow> real \<Rightarrow> real \<Rightarrow> real \<Rightarrow> real \<Rightarrow> SpriteBatch \<Rightarrow> SpriteBatch" where
  "SpriteBatch_drawString texture font x y str size' r g b a this =
     SpriteBatch_addCommand texture (DrawString font x y str size' r g b a) this"

definition SpriteBatch_drawStringOffCenter ::
  "nat \<Rightarrow> Font \<Rightarrow> real \<Rightarrow> real \<Rightarrow> nat list \<Rightarrow> real \<Rightarrow> real \<Rightarrow> real \<Rightarrow> real \<Rightarrow> real \<Rightarrow> SpriteBatch \<Rightarrow> SpriteBatch" where
  "SpriteBatch_drawStringOffCenter texture font x y str size' r g b a this =
     SpriteBatch_addCommand texture (DrawStringOffCenter font x y str size' r g b a) this"

text \<open>The draw calls recorded since \<^verbatim>\<open>begin()\<close>, as (texture, command) pairs in call order.\<close>

definition record_calls :: "(nat \<times> command) list \<Rightarrow> SpriteBatch \<Rightarrow> SpriteBatch" where
  "record_calls cs this =
     fold (\<lambda>(texture, command'). SpriteBatch_addCommand texture command') cs this"

section \<open>Reading the call log\<close>

text \<open>
  The floats a call moves into the GPU buffer: \<^verbatim>\<open>bufferSubData\<close> copies
  \<open>length\<close> elements of the source from \<open>srcOffset\<close> on, and all of them when
  \<open>length\<close> is 0. Every other call moves none.
\<close>

definition transferred :: "gl_call \<Rightarrow> real list" where
  "transferred call =
     (case call of
        BufferSubData target dstByteOffset srcData srcOffset len \<Rightarrow>
          (if len = 0 then drop srcOffset srcData else take len (drop srcOffset srcData))
      | _ \<Rightarrow> [])"

definition uploaded :: "gl_call list \<Rightarrow> real list" where
  "uploaded c = concat (map transferred c)"

definition is_draw :: "gl_call \<Rightarrow> bool" where
  "is_draw call = (case call of DrawArrays _ _ _ \<Rightarrow> True | _ \<Rightarrow> False)"

definition is_texture_bind :: "gl_call \<Rightarrow> bool" where
  "is_texture_bind call = (case call of BindTexture _ _ \<Rightarrow> True | _ \<Rightarrow> False)"

section \<open>The unbounded-buffer reference implementation\<close>

text \<open>
  The reference the specification compares the renderer with: the same emitters writing
  to a vertex buffer without a capacity, so with no capacity check and no flush. Its state
  is the list of floats written so far; one draw call at the end would cover all of it.
\<close>

definition reference_addVertex ::
  "real \<Rightarrow> real \<Rightarrow> real \<Rightarrow> real \<Rightarrow> real \<Rightarrow> real \<Rightarrow> real \<Rightarrow> real \<Rightarrow> real list \<Rightarrow> real list" where
  "reference_addVertex x y u v r g b a buf = buf @ [x, y, u, v, r, g, b, a]"

definition reference_drawTriangle ::
  "real \<Rightarrow> real \<Rightarrow> real \<Rightarrow> real \<Rightarrow> real \<Rightarrow> real \<Rightarrow> real \<Rightarrow> real \<Rightarrow> real \<Rightarrow> real \<Rightarrow> real \<Rightarrow> real \<Rightarrow> real \<Rightarrow> real \<Rightarrow> real \<Rightarrow> real \<Rightarrow> real list \<Rightarrow> real list" where
  "reference_drawTriangle ax ay au av bx by bu bv cx cy cu cv r g b a buf =
     reference_addVertex cx cy cu cv r g b a
       (reference_addVertex bx by bu bv r g b a
         (reference_addVertex ax ay au av r g b a buf))"

definition reference_drawQuad ::
  "real \<Rightarrow> real \<Rightarrow> real \<Rightarrow> real \<Rightarrow> real \<Rightarrow> real \<Rightarrow> real \<Rightarrow> real \<Rightarrow> real \<Rightarrow> real \<Rightarrow> real \<Rightarrow> real \<Rightarrow> real \<Rightarrow> real \<Rightarrow> real \<Rightarrow> real \<Rightarrow> real \<Rightarrow> real \<Rightarrow> real \<Rightarrow> real \<Rightarrow> real list \<Rightarrow> real list" where
  "reference_drawQuad ax ay au av bx by bu bv cx cy cu cv dx dy du dv r g b a buf =
     reference_drawTriangle ax ay au av cx cy cu cv dx dy du dv r g b a
       (reference_drawTriangle ax ay au av bx by bu bv cx cy cu cv r g b a buf)"

definition reference_drawRectangle ::
  "real \<Rightarrow> real \<Rightarrow> real \<Rightarrow> real \<Rightarrow> real \<Rightarrow> real \<Rightarrow> real \<Rightarrow> real \<Rightarrow> real \<Rightarrow> real \<Rightarrow> real \<Rightarrow> real \<Rightarrow> real list \<Rightarrow> real list" where
  "reference_drawRectangle x y width' height' u0 v0 u1 v1 r g b a buf =
     reference_drawQuad x y u0 v0 (x + width') y u1 v0
       (x + width') (y + height') u1 v1 x (y + height') u0 v1 r g b a buf"

definition reference_drawRectangleOffCenter ::
  "real \<Rightarrow> real \<Rightarrow> real \<Rightarrow> real \<Rightarrow> real \<Rightarrow> real \<Rightarrow> real \<Rightarrow> real \<Rightarrow> real \<Rightarrow> real \<Rightarrow> real \<Rightarrow> real \<Rightarrow> real list \<Rightarrow> real list" where
  "reference_drawRectangleOffCenter x y width' height' u0 v0 u1 v1 r g b a buf =
     reference_drawQuad
       (x - width' / 2) (y - height' / 2) u0 v0
       (x + width' / 2) (y - height' / 2) u1 v0
       (x + width' / 2) (y + height' / 2) u1 v1
       (x - width' / 2) (y + height' / 2) u0 v1 r g b a buf"

definition reference_drawRotatedRectangleOffCenter ::
  "real \<Rightarrow> real \<Rightarrow> real \<Rightarrow> real \<Rightarrow> real \<Rightarrow> real \<Rightarrow> real \<Rightarrow> real \<Rightarrow> real \<Rightarrow> real \<Rightarrow> real \<Rightarrow> real \<Rightarrow> real \<Rightarrow> real list \<Rightarrow> real list" where
  "reference_drawRotatedRectangleOffCenter x y width' height' angle u0 v0 u1 v1 r g b a buf =
     reference_drawQuad
       (x + cos angle * (- (width' / 2)) - sin angle * (- (height' / 2)))
       (y + sin angle * (- (width' / 2)) + cos angle * (- (height' / 2))) u0 v0
       (x + cos angle * (width' / 2) - sin angle * (- (height' / 2)))
       (y + sin angle * (width' / 2) + cos angle * (- (height' / 2))) u1 v0
       (x + cos angle * (width' / 2) - sin angle * (height' / 2))
       (y + sin angle * (width' / 2) + cos angle * (height' / 2)) u1 v1
       (x + cos angle * (- (width' / 2)) - sin angle * (height' / 2))
       (y + sin angle * (- (width' / 2)) + cos angle * (height' / 2)) u0 v1 r g b a buf"

definition reference_drawChar ::
  "Font \<Rightarrow> real \<Rightarrow> real \<Rightarrow> real \<Rightarrow> real \<Rightarrow> real \<Rightarrow> real \<Rightarrow> real \<Rightarrow> real \<Rightarrow> real list \<Rightarrow> real list" where
  "reference_drawChar font x y charCode' size' r g b a buf =
     (case get_property (glyphs font) charCode' of
        None \<Rightarrow> buf
      | Some glyph \<Rightarrow>
          reference_drawRectangle
            (x + size' * planeLeft glyph)
            (y + size' * planeTop glyph)
            (size' * (planeRight glyph - planeLeft glyph))
            (size' * (planeBottom glyph - planeTop glyph))
            (atlasLeft glyph) (atlasTop glyph) (atlasRight glyph) (atlasBottom glyph)
            r g b a buf)"

fun reference_drawString_loop ::
  "Font \<Rightarrow> real \<Rightarrow> real \<Rightarrow> real \<Rightarrow> real \<Rightarrow> real \<Rightarrow> real \<Rightarrow> real \<Rightarrow> nat list \<Rightarrow> real \<Rightarrow> real list \<Rightarrow> real list" where
  "reference_drawString_loop font x y size' r g b a [] offset buf = buf"
| "reference_drawString_loop font x y size' r g b a (charCode' # str) offset buf =
     (case get_property (glyphs font) (real charCode') of
        None \<Rightarrow> reference_drawString_loop font x y size' r g b a str offset buf
      | Some glyph \<Rightarrow>
          reference_drawString_loop font x y size' r g b a str (offset + size' * advance glyph)
            (reference_drawChar font (x + offset) y (real charCode') size' r g b a buf))"

definition reference_drawString ::
  "Font \<Rightarrow> real \<Rightarrow> real \<Rightarrow> nat list \<Rightarrow> real \<Rightarrow> real \<Rightarrow> real \<Rightarrow> real \<Rightarrow> real \<Rightarrow> real list \<Rightarrow> real list" where
  "reference_drawString font x y str size' r g b a buf =
     reference_drawString_loop font x y size' r g b a str 0 buf"

definition reference_drawStringOffCenter ::
  "Font \<Rightarrow> real \<Rightarrow> real \<Rightarrow> nat list \<Rightarrow> real \<Rightarrow> real \<Rightarrow> real \<Rightarrow> real \<Rightarrow> real \<Rightarrow> real list \<Rightarrow> real list" where
  "reference_drawStringOffCenter font x y str size' r g b a buf =
     reference_drawString font (x - Renderer_measureString font str size' / 2) y str size' r g b a buf"

fun reference_call :: "command \<Rightarrow> real list \<Rightarrow> real list" where
  "reference_call (DrawTriangle ax ay au av bx by bu bv cx cy cu cv r g b a) buf =
     reference_drawTriangle ax ay au av bx by bu bv cx cy cu cv r g b a buf"
| "reference_call (DrawQuad ax ay au av bx by bu bv cx cy cu cv dx dy du dv r g b a) buf =
     reference_drawQuad ax ay au av bx by bu bv cx cy cu cv dx dy du dv r g b a buf"
| "reference_call (DrawRectangle x y width' height' u0 v0 u1 v1 r g b a) buf =
     reference_drawRectangle x y width' height' u0 v0 u1 v1 r g b a buf"
| "reference_call (DrawRectangleOffCenter x y width' height' u0 v0 u1 v1 r g b a) buf =
     reference_drawRectangleOffCenter x y width' height' u0 v0 u1 v1 r g b a buf"
| "reference_call (DrawRotatedRectangleOffCenter x y width' height' angle u0 v0 u1 v1 r g b a) buf =
     reference_drawRotatedRectangleOffCenter x y width' height' angle u0 v0 u1 v1 r g b a buf"
| "reference_call (DrawChar font x y charCode' size' r g b a) buf =
     reference_drawChar font x y charCode' size' r g b a buf"
| "reference_call (DrawString font x y str size' r g b a) buf =
     reference_drawString font x y str size' r g b a buf"
| "reference_call (DrawStringOffCenter font x y str size' r g b a) buf =
     reference_drawStringOffCenter font x y str size' r g b a buf"

definition reference_stream :: "command list \<Rightarrow> real list" where
  "reference_stream commands = fold reference_call commands []"

section \<open>Properties stated about the model\<close>

text \<open>
  What a \<^verbatim>\<open>delete()\<close> method with a null-handle guard does: on a live handle it issues
  the release call once and nulls the handle, leaving every other field; on a null handle
  it does nothing; the handle is null afterwards; and a second call changes neither the
  wrapper nor the call log.
\<close>

definition releases_once ::
  "('w \<times> gl_call list \<Rightarrow> 'w \<times> gl_call list) \<Rightarrow> ('w \<Rightarrow> nat option) \<Rightarrow> ('w \<Rightarrow> 'w) \<Rightarrow>
   (nat \<Rightarrow> gl_call) \<Rightarrow> bool" where
  "releases_once delete handle_of null_handle release =
     (\<forall>this c.
        (case handle_of this of
           Some h \<Rightarrow> delete (this, c) = (null_handle this, c @ [release h])
         | None \<Rightarrow> delete (this, c) = (this, c)) \<and>
        handle_of (fst (delete (this, c))) = None \<and>
        delete (delete (this, c)) = delete (this, c))"

text \<open>
  A renderer with the scratch array, the mesh and the matrix the constructor sets up for an
  800 by 600 surface, its call log taken as empty and its vertex count as 0; the inputs of
  the concrete instances below are built from it.
\<close>

definition renderer0 :: Renderer where
  "renderer0 =
     \<lparr>gl = [], vertices = replicate (VERTEX_ELEMENTS * MAX_VERTICES) 0, vertexCount = 0,
      mesh = \<lparr>Mesh.vertexCount = MAX_VERTICES,
              vertexArray = \<lparr>VertexArray.handle = Some 2\<rparr>,
              vertexBuffer = \<lparr>Buffer.handle = Some 1, type = ARRAY_BUFFER\<rparr>\<rparr>,
      width = 800, height = 600,
      matrix = Renderer_createOrthographicOffCenter 0 800 600 0 (- 1) 1\<rparr>"

text \<open>
  The floats of the batch being accumulated: the part of the scratch array that the next
  \<^verbatim>\<open>endGeometry()\<close> uploads.
\<close>

definition pending :: "Renderer \<Rightarrow> real list" where
  "pending this = take (VERTEX_ELEMENTS * vertexCount this) (vertices this)"

text \<open>One call of \<^verbatim>\<open>addVertex\<close>, as the record of its eight arguments.\<close>

type_synonym vertex = "real \<times> real \<times> real \<times> real \<times> real \<times> real \<times> real \<times> real"

definition vertex_floats :: "vertex \<Rightarrow> real list" where
  "vertex_floats = (\<lambda>(x, y, u, v, r, g, b, a). [x, y, u, v, r, g, b, a])"

definition addVertex_record :: "vertex \<Rightarrow> Renderer \<Rightarrow> Renderer" where
  "addVertex_record = (\<lambda>(x, y, u, v, r, g, b, a). Renderer_addVertex x y u v r g b a)"

text \<open>The calls one \<^verbatim>\<open>endGeometry()\<close> issues for \<open>n\<close> accumulated vertices.\<close>

definition flush_calls :: "Mesh \<Rightarrow> real list \<Rightarrow> nat \<Rightarrow> gl_call list" where
  "flush_calls m vs n =
     [BindBuffer (Buffer.type (vertexBuffer m)) (Buffer.handle (vertexBuffer m)),
      BufferSubData (Buffer.type (vertexBuffer m)) 0 vs 0 (VERTEX_ELEMENTS * n),
      BindVertexArray (VertexArray.handle (vertexArray m)),
      DrawArrays TRIANGLES 0 n,
      BindVertexArray None]"

text \<open>
  The scratch array has the length the constructor gives it and the running count is
  below the capacity.
\<close>

definition renderer_ok :: "Renderer \<Rightarrow> bool" where
  "renderer_ok this =
     (length (vertices this) = VERTEX_ELEMENTS * MAX_VERTICES \<and> vertexCount this < MAX_VERTICES)"

text \<open>Every float written so far: those already uploaded, then those pending.\<close>

definition stream :: "Renderer \<Rightarrow> real list" where
  "stream this = uploaded (gl this) @ pending this"

text \<open>
  A draw batch is the scratch array at the time of a flush with the number of vertices
  flushed: the flush uploads the first \<open>8 * n\<close> floats of the array and draws \<open>n\<close>
  vertices. A batch of the renderer has at least one vertex and at most the capacity, and
  its array has the constructor's length. \<open>flush_log\<close> is the call log of a sequence of
  batches, \<open>batch_floats\<close> the floats one batch uploads and draws.
\<close>

definition batch_ok :: "real list \<times> nat \<Rightarrow> bool" where
  "batch_ok = (\<lambda>(data, n).
     n \<noteq> 0 \<and> n \<le> MAX_VERTICES \<and> length data = VERTEX_ELEMENTS * MAX_VERTICES)"

definition batch_floats :: "real list \<times> nat \<Rightarrow> real list" where
  "batch_floats = (\<lambda>(data, n). take (VERTEX_ELEMENTS * n) data)"

definition flush_log :: "Mesh \<Rightarrow> (real list \<times> nat) list \<Rightarrow> gl_call list" where
  "flush_log m batches = concat (map (\<lambda>(data, n). flush_calls m data n) batches)"

text \<open>
  \<open>appends this vs this'\<close>: from \<open>this\<close> to \<open>this'\<close> the floats \<open>vs\<close> were
  written, in order and with nothing else, whatever was uploaded in between; the mesh is
  the same, no texture was bound, and the calls issued are those of a sequence of draw
  batches.
\<close>

definition appends :: "Renderer \<Rightarrow> real list \<Rightarrow> Renderer \<Rightarrow> bool" where
  "appends this vs this' =
     (renderer_ok this' \<and> mesh this' = mesh this \<and> stream this' = stream this @ vs \<and>
      filter is_texture_bind (gl this') = filter is_texture_bind (gl this) \<and>
      (\<exists>batches. gl this' = gl this @ flush_log (mesh this) batches \<and> list_all batch_ok batches))"

text \<open>The five shape emitters, among the commands.\<close>

definition is_shape :: "command \<Rightarrow> bool" where
  "is_shape c =
     (case c of
        DrawChar _ _ _ _ _ _ _ _ _ \<Rightarrow> False
      | DrawString _ _ _ _ _ _ _ _ _ \<Rightarrow> False
      | DrawStringOffCenter _ _ _ _ _ _ _ _ _ \<Rightarrow> False
      | _ \<Rightarrow> True)"

text \<open>
  All vertices of one emitter call land in one draw batch: after the commands
  \<open>before\<close>, the call of \<open>c\<close> either issues no GL call and appends its vertices to
  the batch being accumulated, or leaves a batch that holds exactly its vertices.
\<close>

definition emitted_in_one_batch :: "command list \<Rightarrow> command \<Rightarrow> Renderer \<Rightarrow> bool" where
  "emitted_in_one_batch before c this =
     (case replay before this of
        None \<Rightarrow> False
      | Some t \<Rightarrow>
          (case Renderer_call c t of
             None \<Rightarrow> False
           | Some t' \<Rightarrow>
               (gl t' = gl t \<and> pending t' = pending t @ reference_call c []) \<or>
               pending t' = reference_call c []))"

text \<open>
  The distinct elements of a list in the order of their first occurrence: for the
  textures of the recorded calls, the order in which the buckets are created.
\<close>

fun first_uses :: "'a list \<Rightarrow> 'a list" where
  "first_uses [] = []"
| "first_uses (x # xs) = x # filter (\<lambda>y. y \<noteq> x) (first_uses xs)"

text \<open>The commands recorded against one texture, in call order.\<close>

definition commands_for :: "nat \<Rightarrow> (nat \<times> command) list \<Rightarrow> command list" where
  "commands_for texture cs = map snd (filter (\<lambda>p. fst p = texture) cs)"

text \<open>
  What replaying the buckets writes according to the reference, bucket after bucket, and
  the texture binds of one \<^verbatim>\<open>end()\<close>, one per bucket.
\<close>

definition bucket_stream :: "(nat \<times> command list) list \<Rightarrow> real list" where
  "bucket_stream bs = concat (map (\<lambda>(texture, commands). reference_stream commands) bs)"

definition bucket_binds :: "(nat \<Rightarrow> Texture) \<Rightarrow> (nat \<times> command list) list \<Rightarrow> gl_call list" where
  "bucket_binds textures bs =
     map (\<lambda>(texture, commands).
            BindTexture (Texture.type (textures texture)) (Texture.handle (textures texture))) bs"

text \<open>Concrete inputs: a batch on \<open>renderer0\<close>, a texture store, two commands.\<close>

definition batch0 :: SpriteBatch where
  "batch0 = \<lparr>renderer = renderer0, buckets = []\<rparr>"

definition textures0 :: "nat \<Rightarrow> Texture" where
  "textures0 texture = \<lparr>Texture.handle = Some texture, type = TEXTURE_2D\<rparr>"

definition triangle0 :: command where
  "triangle0 = DrawTriangle 0 0 0 0 4 0 1 0 0 3 0 1 1 1 1 1"

definition quad0 :: command where
  "quad0 = DrawQuad 0 0 0 0 4 0 1 0 4 3 1 1 0 3 0 1 1 1 1 1"

text \<open>The font has a glyph for this code unit.\<close>

definition has_glyph :: "Font \<Rightarrow> nat \<Rightarrow> bool" where
  "has_glyph font charCode' = (get_property (glyphs font) (real charCode') \<noteq> None)"

text \<open>The ten floats \<^verbatim>\<open>serializeData\<close> writes for one glyph.\<close>

definition glyph_floats :: "Glyph \<Rightarrow> real list" where
  "glyph_floats glyph =
     [charCode glyph, advance glyph, planeLeft glyph, planeBottom glyph,
      planeRight glyph, planeTop glyph, atlasLeft glyph, atlasBottom glyph,
      atlasRight glyph, atlasTop glyph]"

text \<open>
  Every entry of the table sits under the \<^verbatim>\<open>charCode\<close> of its glyph, as
  \<^verbatim>\<open>this.glyphs[charCode] = { charCode, ... }\<close> stores it.
\<close>

definition keyed_by_charCode :: "(real \<times> Glyph) list \<Rightarrow> bool" where
  "keyed_by_charCode table = list_all (\<lambda>(k, glyph). charCode glyph = k) table"

text \<open>
  A key list in the property order of a JavaScript object: no key twice, array indices
  ascending, every array index before every other key.
\<close>

fun property_order :: "real list \<Rightarrow> bool" where
  "property_order [] = True"
| "property_order (k # ks) =
     (k \<notin> set ks \<and>
      (if is_array_index k then list_all (\<lambda>k'. if is_array_index k' then k < k' else True) ks
       else list_all (\<lambda>k'. \<not> is_array_index k') ks) \<and>
      property_order ks)"

text \<open>A font of two glyphs.\<close>

definition font0 :: Font where
  "font0 = \<lparr>glyphs =
     [(65, \<lparr>charCode = 65, advance = 1 / 2, planeLeft = 0, planeBottom = 1, planeRight = 1 / 2,
            planeTop = 1 / 4, atlasLeft = 0, atlasBottom = 1 / 8, atlasRight = 1 / 8, atlasTop = 0\<rparr>),
      (66, \<lparr>charCode = 66, advance = 3 / 4, planeLeft = 0, planeBottom = 1, planeRight = 3 / 4,
            planeTop = 1 / 4, atlasLeft = 1 / 8, atlasBottom = 1 / 8, atlasRight = 1 / 4, atlasTop = 0\<rparr>)]\<rparr>"

text \<open>
  A glyph with every field rounded to float32, and a table with every key and every glyph
  rounded: what a table becomes when its numbers pass through a \<^verbatim>\<open>Float32Array\<close>.
\<close>

definition round_glyph :: "Glyph \<Rightarrow> Glyph" where
  "round_glyph glyph =
     \<lparr>charCode = fround (charCode glyph), advance = fround (advance glyph),
      planeLeft = fround (planeLeft glyph), planeBottom = fround (planeBottom glyph),
      planeRight = fround (planeRight glyph), planeTop = fround (planeTop glyph),
      atlasLeft = fround (atlasLeft glyph), atlasBottom = fround (atlasBottom glyph),
      atlasRight = fround (atlasRight glyph), atlasTop = fround (atlasTop glyph)\<rparr>"

definition rounded_table :: "(real \<times> Glyph) list \<Rightarrow> (real \<times> Glyph) list" where
  "rounded_table table = map (\<lambda>(k, glyph). (fround k, round_glyph glyph)) table"


text \<open>The release call a \<^verbatim>\<open>delete()\<close> on this object issues, if any.\<close>

definition object_release :: "gpu_object \<Rightarrow> gl_call list" where
  "object_release obj =
     (case obj of
        TextureObj t \<Rightarrow> (case Texture.handle t of None \<Rightarrow> [] | Some h \<Rightarrow> [DeleteTexture h])
      | RenderbufferObj rb \<Rightarrow>
          (case Renderbuffer.handle rb of None \<Rightarrow> [] | Some h \<Rightarrow> [DeleteRenderbuffer h]))"

text \<open>
  What an attach method does, for every new attachment and every entry state: afterwards
  the framebuffer's attachment is the new one; the attachment held on entry, if any, has a
  null handle and no other object of the store has changed; the calls issued are the two
  binds, the attach call, the unbind and then the release of the old attachment; and after
  each statement of the body the attachment field holds one reference, the old one before
  the assignment (the fourth statement) and the new one from it on.
\<close>

definition replaces_attachment ::
  "(nat \<Rightarrow> fb_state \<Rightarrow> fb_state) \<Rightarrow> (nat \<Rightarrow> fb_state \<Rightarrow> (fb_state \<Rightarrow> fb_state) list) \<Rightarrow>
   (nat option \<Rightarrow> gl_call) \<Rightarrow> bool" where
  "replaces_attachment attach body attach_call =
     (\<forall>new s.
        (let s' = attach new s; old = attachment (framebuffer s) in
           attachment (framebuffer s') = Some new \<and>
           (case old of
              None \<Rightarrow> objects s' = objects s
            | Some a \<Rightarrow>
                object_handle (objects s' a) = None \<and>
                objects s' = (objects s)(a := objects s' a)) \<and>
           calls s' =
             object_bind (objects s new) (Framebuffer_bind (framebuffer s) (calls s)) @
             [attach_call (object_handle (objects s new)), BindFramebuffer FRAMEBUFFER None] @
             (case old of None \<Rightarrow> [] | Some a \<Rightarrow> object_release (objects s a)) \<and>
           state_after (length (body new s)) (body new s) s = s' \<and>
           (\<forall>k. attachment (framebuffer (state_after k (body new s) s)) =
                  (if k < 4 then old else Some new))))"

section \<open>Rounding\<close>

lemma round_ties_even_of_int [simp]: "round_ties_even (of_int n) = n"
  by (simp add: round_ties_even_def)



lemma two_powr_int_nonneg: "0 \<le> k \<Longrightarrow> (2::real) powr of_int k = of_int (2 ^ nat k)"
  by (simp add: powr_real_of_int)

lemma floor_log_scaled:
  assumes "0 < x"
  shows "\<lfloor>log 2 (x * 2 powr of_int k)\<rfloor> = \<lfloor>log 2 x\<rfloor> + k"
proof -
  have "log 2 (x * 2 powr of_int k) = log 2 x + of_int k"
    using assms by (simp add: log_mult)
  then show ?thesis by simp
qed

lemma representable:
  assumes "\<bar>n\<bar> < 2 ^ p"
  shows "round_to_precision p (of_int n * 2 powr of_int k) = of_int n * 2 powr of_int k"
proof (cases "n = 0")
  case True
  then show ?thesis by (simp add: round_to_precision_def)
next
  case False
  let ?x = "of_int n * 2 powr of_int k :: real"
  have x0: "?x \<noteq> 0" using False by simp
  have absx: "\<bar>?x\<bar> = of_int \<bar>n\<bar> * 2 powr of_int k" by (simp add: abs_mult)
  have npos: "0 < (of_int \<bar>n\<bar> :: real)" using False by simp
  define m where "m = \<lfloor>log 2 (of_int \<bar>n\<bar>)\<rfloor>"
  have e: "\<lfloor>log 2 \<bar>?x\<bar>\<rfloor> = m + k"
    unfolding absx m_def by (rule floor_log_scaled [OF npos])
  have "(of_int \<bar>n\<bar> :: real) < 2 ^ p"
    using assms by (metis of_int_less_iff of_int_numeral of_int_power)
  then have "(of_int \<bar>n\<bar> :: real) < 2 powr real p"
    by (simp add: powr_realpow)
  then have "log 2 (of_int \<bar>n\<bar>) < real p"
    using npos by (simp add: log_less_iff)
  then have mp: "m < int p" unfolding m_def by (simp add: floor_less_iff)
  define j where "j = int p - 1 - m"
  have j0: "0 \<le> j" using mp by (simp add: j_def)
  have ulp: "2 powr of_int (m + k - int p + 1) = (2::real) powr of_int k / 2 powr of_int j"
    by (simp add: j_def powr_diff [symmetric] algebra_simps)
  have pj: "(2::real) powr of_int j = of_int (2 ^ nat j)"
    by (rule two_powr_int_nonneg [OF j0])
  have q: "?x / (2 powr of_int k / 2 powr of_int j) = of_int (n * 2 ^ nat j)"
    by (simp add: pj)
  have "round_to_precision p ?x =
        (2 powr of_int k / 2 powr of_int j) * of_int (round_ties_even (of_int (n * 2 ^ nat j)))"
    using x0 unfolding round_to_precision_def Let_def e ulp q by simp
  also have "\<dots> = (2 powr of_int k / 2 powr of_int j) * of_int (n * 2 ^ nat j)"
    by (simp only: round_ties_even_of_int)
  also have "\<dots> = ?x"
    by (simp add: pj)
  finally show ?thesis .
qed





lemma round_to_precision_of_int:
  "\<bar>n\<bar> < 2 ^ p \<Longrightarrow> round_to_precision p (of_int n) = of_int n"
  using representable [of n p 0] by simp

lemma round_to_precision_dyadic:
  "\<bar>n\<bar> < 2 ^ p \<Longrightarrow> round_to_precision p (of_int n / 2 ^ j) = of_int n / 2 ^ j"
  using representable [of n p "- int j"] by (simp add: powr_minus powr_realpow field_simps)



lemma fround_values:
  "fround 0 = 0" "fround 1 = 1" "fround 2 = 2" "fround 65 = 65" "fround 66 = 66"
  "fround (1 / 2) = 1 / 2" "fround (1 / 4) = 1 / 4" "fround (3 / 4) = 3 / 4"
  "fround (1 / 8) = 1 / 8"
  using round_to_precision_of_int [of 0 24] round_to_precision_of_int [of 1 24]
    round_to_precision_of_int [of 2 24] round_to_precision_of_int [of 65 24]
    round_to_precision_of_int [of 66 24]
    round_to_precision_dyadic [of 1 24 1] round_to_precision_dyadic [of 1 24 2]
    round_to_precision_dyadic [of 3 24 2] round_to_precision_dyadic [of 1 24 3]
  by (simp_all add: fround_def)


section \<open>GPU wrappers: deletion\<close>

text \<open>
  Claim C9. For each of the seven GPU-resource wrappers (Renderbuffer, Framebuffer, Shader,
  ShaderProgram, Texture, Buffer, VertexArray), the first \<^verbatim>\<open>delete()\<close> releases the
  underlying resource and sets the handle to null, and every later \<^verbatim>\<open>delete()\<close> is a
  no-op: no second release is issued and the wrapper's state does not change.
\<close>

theorem delete_releases_once:
  "releases_once Renderbuffer_delete Renderbuffer.handle
     (\<lambda>this. this\<lparr>Renderbuffer.handle := None\<rparr>) DeleteRenderbuffer \<and>
   releases_once Framebuffer_delete Framebuffer.handle
     (\<lambda>this. this\<lparr>Framebuffer.handle := None\<rparr>) DeleteFramebuffer \<and>
   releases_once Shader_delete Shader.handle
     (\<lambda>this. this\<lparr>Shader.handle := None\<rparr>) DeleteShader \<and>
   releases_once ShaderProgram_delete ShaderProgram.handle
     (\<lambda>this. this\<lparr>ShaderProgram.handle := None\<rparr>) DeleteProgram \<and>
   releases_once Texture_delete Texture.handle
     (\<lambda>this. this\<lparr>Texture.handle := None\<rparr>) DeleteTexture \<and>
   releases_once Buffer_delete Buffer.handle
     (\<lambda>this. this\<lparr>Buffer.handle := None\<rparr>) DeleteBuffer \<and>
   releases_once VertexArray_delete VertexArray.handle
     (\<lambda>this. this\<lparr>VertexArray.handle := None\<rparr>) DeleteVertexArray"
  unfolding releases_once_def Renderbuffer_delete_def Framebuffer_delete_def Shader_delete_def
    ShaderProgram_delete_def Texture_delete_def Buffer_delete_def VertexArray_delete_def
  by (simp split: option.split)

section \<open>Renderer: accumulating vertices\<close>

lemma fold_update_block:
  "base + length args \<le> length vs \<Longrightarrow>
   fold (\<lambda>i vs. vs[base + i := args ! i]) [0..<length args] vs =
     take base vs @ args @ drop (base + length args) vs"
proof (induction args rule: rev_induct)
  case Nil
  then show ?case by simp
next
  case (snoc x xs)
  have cong: "fold (\<lambda>i vs. vs[base + i := (xs @ [x]) ! i]) [0..<length xs] vs =
              fold (\<lambda>i vs. vs[base + i := xs ! i]) [0..<length xs] vs"
    by (rule fold_cong) (auto simp: nth_append)
  have ih: "fold (\<lambda>i vs. vs[base + i := xs ! i]) [0..<length xs] vs =
            take base vs @ xs @ drop (base + length xs) vs"
    using snoc by simp
  have len: "base + length xs < length vs" using snoc.prems by simp
  have "(take base vs @ xs @ drop (base + length xs) vs)[base + length xs := x] =
        take base vs @ xs @ (drop (base + length xs) vs)[0 := x]"
    using len by (simp add: list_update_append)
  also have "(drop (base + length xs) vs)[0 := x] = x # drop (Suc (base + length xs)) vs"
    using len by (metis Cons_nth_drop_Suc list_update_code(2))
  finally show ?case
    using cong ih by simp
qed

lemma addVertex_vertices:
  assumes "VERTEX_ELEMENTS * vertexCount this + VERTEX_ELEMENTS \<le> length (vertices this)"
  shows "vertices (Renderer_addVertex x y u v r g b a this) =
           take (VERTEX_ELEMENTS * vertexCount this) (vertices this) @ [x, y, u, v, r, g, b, a] @
           drop (VERTEX_ELEMENTS * vertexCount this + VERTEX_ELEMENTS) (vertices this)"
proof -
  have n: "length [x, y, u, v, r, g, b, a] = VERTEX_ELEMENTS"
    by (simp add: VERTEX_ELEMENTS_def)
  have "VERTEX_ELEMENTS * vertexCount this + length [x, y, u, v, r, g, b, a] \<le> length (vertices this)"
    unfolding n by (rule assms)
  from fold_update_block [OF this]
  have "fold (\<lambda>i vs. vs[VERTEX_ELEMENTS * vertexCount this + i := [x, y, u, v, r, g, b, a] ! i])
          [0..<VERTEX_ELEMENTS] (vertices this) =
        take (VERTEX_ELEMENTS * vertexCount this) (vertices this) @ [x, y, u, v, r, g, b, a] @
        drop (VERTEX_ELEMENTS * vertexCount this + VERTEX_ELEMENTS) (vertices this)"
    unfolding n .
  then show ?thesis
    unfolding Renderer_addVertex_def Let_def by (simp del: upt_rec_numeral)
qed

lemma addVertex_length [simp]:
  "length (vertices (Renderer_addVertex x y u v r g b a this)) = length (vertices this)"
proof -
  have "length (fold (\<lambda>i vs. vs[base + i := args ! i]) is vs) = length vs" for base args "is" and vs :: "real list"
    by (induction "is" arbitrary: vs) auto
  then show ?thesis by (simp add: Renderer_addVertex_def Let_def del: upt_rec_numeral)
qed

lemma addVertex_frame [simp]:
  "gl (Renderer_addVertex x y u v r g b a this) = gl this"
  "mesh (Renderer_addVertex x y u v r g b a this) = mesh this"
  "vertexCount (Renderer_addVertex x y u v r g b a this) = Suc (vertexCount this)"
  by (simp_all add: Renderer_addVertex_def Let_def del: upt_rec_numeral)

lemma addVertex_pending:
  assumes "length (vertices this) = VERTEX_ELEMENTS * MAX_VERTICES"
    and "vertexCount this < MAX_VERTICES"
  shows "pending (Renderer_addVertex x y u v r g b a this) = pending this @ [x, y, u, v, r, g, b, a]"
proof -
  have le: "VERTEX_ELEMENTS * vertexCount this + VERTEX_ELEMENTS \<le> length (vertices this)"
    using assms by (simp add: VERTEX_ELEMENTS_def)
  have l1: "length (take (VERTEX_ELEMENTS * vertexCount this) (vertices this)) = VERTEX_ELEMENTS * vertexCount this"
    using le by simp
  show ?thesis
    unfolding pending_def addVertex_vertices [OF le] addVertex_frame
    using l1 by (simp add: VERTEX_ELEMENTS_def)
qed


lemma endGeometry_Some:
  "vertexCount this \<noteq> 0 \<Longrightarrow>
   Renderer_endGeometry this =
     Some (this\<lparr>gl := gl this @ flush_calls (mesh this) (vertices this) (vertexCount this)\<rparr>)"
  by (simp add: Renderer_endGeometry_def Mesh_draw_def Mesh_setDataRange_def
      Buffer_setDataRange_def Buffer_bind_def VertexArray_draw_def VertexArray_bind_def
      VertexArray_unnbind_def flush_calls_def)

lemma endGeometry_None:
  "vertexCount this = 0 \<Longrightarrow> Renderer_endGeometry this = None"
  by (simp add: Renderer_endGeometry_def)

lemma uploaded_append [simp]: "uploaded (c @ d) = uploaded c @ uploaded d"
  by (simp add: uploaded_def)

lemma uploaded_Nil [simp]: "uploaded [] = []"
  by (simp add: uploaded_def)

lemma uploaded_flush_calls:
  "n \<noteq> 0 \<Longrightarrow> uploaded (flush_calls m vs n) = take (VERTEX_ELEMENTS * n) vs"
  by (simp add: uploaded_def flush_calls_def transferred_def VERTEX_ELEMENTS_def)

lemma pending_beginGeometry [simp]: "pending (Renderer_beginGeometry this) = []"
  by (simp add: pending_def Renderer_beginGeometry_def)

lemma beginGeometry_frame [simp]:
  "gl (Renderer_beginGeometry this) = gl this"
  "mesh (Renderer_beginGeometry this) = mesh this"
  "vertices (Renderer_beginGeometry this) = vertices this"
  "vertexCount (Renderer_beginGeometry this) = 0"
  by (simp_all add: Renderer_beginGeometry_def)

lemma three_vertices:
  assumes "length (vertices this) = VERTEX_ELEMENTS * MAX_VERTICES"
    and "vertexCount this + 3 \<le> MAX_VERTICES"
  shows "pending (Renderer_addVertex cx cy cu cv r g b a
                   (Renderer_addVertex bx by bu bv r g b a
                     (Renderer_addVertex ax ay au av r g b a this))) =
           pending this @ reference_drawTriangle ax ay au av bx by bu bv cx cy cu cv r g b a []"
proof -
  let ?t1 = "Renderer_addVertex ax ay au av r g b a this"
  let ?t2 = "Renderer_addVertex bx by bu bv r g b a ?t1"
  let ?t3 = "Renderer_addVertex cx cy cu cv r g b a ?t2"
  have p1: "pending ?t1 = pending this @ [ax, ay, au, av, r, g, b, a]"
    using assms(1,2) by (intro addVertex_pending) simp_all
  have p2: "pending ?t2 = pending ?t1 @ [bx, by, bu, bv, r, g, b, a]"
    using assms(1,2) by (intro addVertex_pending) simp_all
  have p3: "pending ?t3 = pending ?t2 @ [cx, cy, cu, cv, r, g, b, a]"
    using assms(1,2) by (intro addVertex_pending) simp_all
  show ?thesis
    by (simp add: p1 p2 p3 reference_drawTriangle_def reference_addVertex_def)
qed

lemma drawTriangle_effect:
  assumes "renderer_ok this"
  shows "\<exists>this'. Renderer_drawTriangle ax ay au av bx by bu bv cx cy cu cv r g b a this = Some this' \<and>
           renderer_ok this' \<and> mesh this' = mesh this \<and>
           gl this' = gl this @ (if MAX_VERTICES \<le> vertexCount this + 3
                                 then flush_calls (mesh this) (vertices this) (vertexCount this) else []) \<and>
           pending this' = (if MAX_VERTICES \<le> vertexCount this + 3 then [] else pending this) @
                           reference_drawTriangle ax ay au av bx by bu bv cx cy cu cv r g b a [] \<and>
           vertexCount this' = (if MAX_VERTICES \<le> vertexCount this + 3 then 3 else vertexCount this + 3)"
proof (cases "MAX_VERTICES \<le> vertexCount this + 3")
  case True
  then have nz: "vertexCount this \<noteq> 0" by (simp add: MAX_VERTICES_def)
  let ?f = "Renderer_beginGeometry
              (this\<lparr>gl := gl this @ flush_calls (mesh this) (vertices this) (vertexCount this)\<rparr>)"
  have len: "length (vertices ?f) = VERTEX_ELEMENTS * MAX_VERTICES"
    using assms by (simp add: renderer_ok_def)
  have cap: "vertexCount ?f + 3 \<le> MAX_VERTICES" by (simp add: MAX_VERTICES_def)
  have three: "3 < MAX_VERTICES" by (simp add: MAX_VERTICES_def)
  note tv = three_vertices [OF len cap]
  show ?thesis
    using True tv three len
    by (simp add: Renderer_drawTriangle_def endGeometry_Some [OF nz] renderer_ok_def)
next
  case False
  have len: "length (vertices this) = VERTEX_ELEMENTS * MAX_VERTICES"
    using assms by (simp add: renderer_ok_def)
  have cap: "vertexCount this + 3 \<le> MAX_VERTICES" using False by simp
  note tv = three_vertices [OF len cap]
  show ?thesis
    using False tv len
    by (simp add: Renderer_drawTriangle_def renderer_ok_def)
qed


lemma addVertex_records:
  assumes "length (vertices this) = VERTEX_ELEMENTS * MAX_VERTICES"
    and "vertexCount this + length vs \<le> MAX_VERTICES"
  shows "pending (fold addVertex_record vs this) = pending this @ concat (map vertex_floats vs) \<and>
         vertexCount (fold addVertex_record vs this) = vertexCount this + length vs \<and>
         length (vertices (fold addVertex_record vs this)) = VERTEX_ELEMENTS * MAX_VERTICES \<and>
         gl (fold addVertex_record vs this) = gl this \<and>
         mesh (fold addVertex_record vs this) = mesh this"
  using assms
proof (induction vs arbitrary: this)
  case Nil
  then show ?case by simp
next
  case (Cons p vs)
  obtain x y u v r g b a where p: "p = (x, y, u, v, r, g, b, a)"
    by (metis surj_pair)
  let ?t = "Renderer_addVertex x y u v r g b a this"
  have step: "pending ?t = pending this @ [x, y, u, v, r, g, b, a]"
    using Cons.prems by (intro addVertex_pending) simp_all
  have "length (vertices ?t) = VERTEX_ELEMENTS * MAX_VERTICES"
    using Cons.prems by simp
  moreover have "vertexCount ?t + length vs \<le> MAX_VERTICES"
    using Cons.prems by simp
  ultimately show ?case
    using Cons.IH [of ?t] step by (simp add: p addVertex_record_def vertex_floats_def)
qed

text \<open>
  Claim C3. After \<^verbatim>\<open>beginGeometry()\<close> and \<open>n\<close> calls of \<^verbatim>\<open>addVertex\<close> with
  \<open>0 < n \<le> MAX_VERTICES\<close>, \<^verbatim>\<open>endGeometry()\<close> issues exactly one upload and one
  draw call: the upload takes \<open>8 * n\<close> floats from the start of the scratch array, which
  are the arguments of the \<open>n\<close> calls in order, and the draw call covers \<open>n\<close> vertices.
  For \<open>n = 0\<close> it takes the early return and issues no call.
\<close>

theorem endGeometry_one_draw:
  assumes "length (vertices this) = VERTEX_ELEMENTS * MAX_VERTICES"
    and "length vs \<le> MAX_VERTICES"
  shows "let acc = fold addVertex_record vs (Renderer_beginGeometry this) in
         if vs = [] then Renderer_endGeometry acc = None \<and> endGeometry_statement acc = acc
         else Renderer_endGeometry acc =
                Some (acc\<lparr>gl := gl this @
                  [BindBuffer (Buffer.type (vertexBuffer (mesh this))) (Buffer.handle (vertexBuffer (mesh this))),
                   BufferSubData (Buffer.type (vertexBuffer (mesh this))) 0 (vertices acc) 0
                     (VERTEX_ELEMENTS * length vs),
                   BindVertexArray (VertexArray.handle (vertexArray (mesh this))),
                   DrawArrays TRIANGLES 0 (length vs),
                   BindVertexArray None]\<rparr>) \<and>
              take (VERTEX_ELEMENTS * length vs) (vertices acc) = concat (map vertex_floats vs)"
proof -
  let ?b = "Renderer_beginGeometry this"
  let ?acc = "fold addVertex_record vs ?b"
  have len: "length (vertices ?b) = VERTEX_ELEMENTS * MAX_VERTICES"
    using assms(1) by simp
  have cap: "vertexCount ?b + length vs \<le> MAX_VERTICES"
    using assms(2) by simp
  note acc = addVertex_records [OF len cap]
  have count: "vertexCount ?acc = length vs" using acc by simp
  have data: "take (VERTEX_ELEMENTS * length vs) (vertices ?acc) = concat (map vertex_floats vs)"
    using acc count by (simp add: pending_def)
  show ?thesis
  proof (cases "vs = []")
    case True
    then show ?thesis
      by (simp add: endGeometry_statement_def endGeometry_None)
  next
    case False
    then have nz: "vertexCount ?acc \<noteq> 0" using count by simp
    show ?thesis
      using False data acc count
      by (simp add: Let_def endGeometry_Some [OF nz] flush_calls_def)
  qed
qed

theorem endGeometry_one_draw_witness:
  "length (vertices renderer0) = VERTEX_ELEMENTS * MAX_VERTICES \<and>
   length [(0, 0, 0, 0, 1, 1, 1, 1), (4, 0, 1, 0, 1, 1, 1, 1), (0, 3, 0, 1, 1, 1, 1, 1 :: real)]
     \<le> MAX_VERTICES \<and>
   map_option (\<lambda>this. (filter is_draw (gl this), uploaded (gl this)))
     (Renderer_endGeometry
       (fold addVertex_record
          [(0, 0, 0, 0, 1, 1, 1, 1), (4, 0, 1, 0, 1, 1, 1, 1), (0, 3, 0, 1, 1, 1, 1, 1)]
          (Renderer_beginGeometry renderer0))) =
   Some ([DrawArrays TRIANGLES 0 3],
         [0, 0, 0, 0, 1, 1, 1, 1, 4, 0, 1, 0, 1, 1, 1, 1, 0, 3, 0, 1, 1, 1, 1, 1])"
proof -
  have len: "length (vertices renderer0) = VERTEX_ELEMENTS * MAX_VERTICES"
    by (simp add: renderer0_def)
  have cap: "length [(0, 0, 0, 0, 1, 1, 1, 1), (4, 0, 1, 0, 1, 1, 1, 1), (0, 3, 0, 1, 1, 1, 1, 1 :: real)]
     \<le> MAX_VERTICES"
    by (simp add: MAX_VERTICES_def)
  have gl0: "gl renderer0 = []" by (simp add: renderer0_def)
  show ?thesis
    using endGeometry_one_draw [OF len cap] len cap
    by (simp add: Let_def gl0 is_draw_def uploaded_def transferred_def vertex_floats_def
        VERTEX_ELEMENTS_def)
qed


section \<open>Renderer: the orthographic projection\<close>







section \<open>Renderer: the shape emitters against the reference\<close>

lemma flush_log_simps [simp]:
  "flush_log m [] = []"
  "flush_log m (bs @ cs) = flush_log m bs @ flush_log m cs"
  "flush_log m [(data, n)] = flush_calls m data n"
  by (simp_all add: flush_log_def)

lemma uploaded_flush_log:
  "list_all batch_ok batches \<Longrightarrow>
   uploaded (flush_log m batches) = concat (map batch_floats batches)"
proof (induction batches)
  case Nil
  then show ?case by simp
next
  case (Cons b batches)
  obtain data n where b: "b = (data, n)" by (cases b)
  have n: "n \<noteq> 0" using Cons.prems by (simp add: b batch_ok_def)
  have "flush_log m (b # batches) = flush_calls m data n @ flush_log m batches"
    by (simp add: flush_log_def b)
  then show ?case
    using Cons by (simp add: uploaded_flush_calls [OF n] b batch_floats_def)
qed

lemma appends_refl: "renderer_ok this \<Longrightarrow> appends this [] this"
proof -
  assume "renderer_ok this"
  moreover have "gl this = gl this @ flush_log (mesh this) [] \<and> list_all batch_ok []"
    by simp
  ultimately show ?thesis
    unfolding appends_def by blast
qed

lemma appends_trans:
  assumes "appends a xs b" and "appends b ys c"
  shows "appends a (xs @ ys) c"
proof -
  from assms(1) obtain bs where
    b1: "gl b = gl a @ flush_log (mesh a) bs" "list_all batch_ok bs" and m1: "mesh b = mesh a"
    unfolding appends_def by blast
  from assms(2) obtain cs where
    b2: "gl c = gl b @ flush_log (mesh b) cs" "list_all batch_ok cs"
    unfolding appends_def by blast
  have "gl c = gl a @ flush_log (mesh a) (bs @ cs) \<and> list_all batch_ok (bs @ cs)"
    using b1 b2 m1 by simp
  then have "\<exists>batches. gl c = gl a @ flush_log (mesh a) batches \<and> list_all batch_ok batches"
    by blast
  moreover have "renderer_ok c \<and> mesh c = mesh a \<and> stream c = stream a @ xs @ ys \<and>
      filter is_texture_bind (gl c) = filter is_texture_bind (gl a)"
    using assms by (simp add: appends_def)
  ultimately show ?thesis
    unfolding appends_def by simp
qed

lemma texture_binds_flush_calls [simp]: "filter is_texture_bind (flush_calls m vs n) = []"
  by (simp add: flush_calls_def is_texture_bind_def)

lemma drawTriangle_appends:
  assumes "renderer_ok this"
  shows "\<exists>this'. Renderer_drawTriangle ax ay au av bx by bu bv cx cy cu cv r g b a this = Some this' \<and>
           appends this (reference_drawTriangle ax ay au av bx by bu bv cx cy cu cv r g b a []) this'"
proof -
  from drawTriangle_effect [OF assms, of ax ay au av bx "by" bu bv cx cy cu cv r g b a]
  obtain this' where
    eq: "Renderer_drawTriangle ax ay au av bx by bu bv cx cy cu cv r g b a this = Some this'"
    and ok: "renderer_ok this'" and m: "mesh this' = mesh this"
    and g: "gl this' = gl this @ (if MAX_VERTICES \<le> vertexCount this + 3
                                 then flush_calls (mesh this) (vertices this) (vertexCount this) else [])"
    and p: "pending this' = (if MAX_VERTICES \<le> vertexCount this + 3 then [] else pending this) @
                           reference_drawTriangle ax ay au av bx by bu bv cx cy cu cv r g b a []"
    by blast
  have "stream this' = stream this @ reference_drawTriangle ax ay au av bx by bu bv cx cy cu cv r g b a []"
  proof (cases "MAX_VERTICES \<le> vertexCount this + 3")
    case True
    then have nz: "vertexCount this \<noteq> 0" by (simp add: MAX_VERTICES_def)
    have "uploaded (flush_calls (mesh this) (vertices this) (vertexCount this)) = pending this"
      by (simp add: uploaded_flush_calls [OF nz] pending_def)
    then show ?thesis
      using True by (simp add: stream_def g p)
  next
    case False
    then show ?thesis by (simp add: stream_def g p)
  qed
  moreover have "\<exists>batches. gl this' = gl this @ flush_log (mesh this) batches \<and>
                    list_all batch_ok batches"
  proof (cases "MAX_VERTICES \<le> vertexCount this + 3")
    case True
    then have "gl this' = gl this @ flush_log (mesh this) [(vertices this, vertexCount this)]"
      using g by simp
    moreover have "list_all batch_ok [(vertices this, vertexCount this)]"
      using True assms by (simp add: batch_ok_def renderer_ok_def MAX_VERTICES_def)
    ultimately show ?thesis by blast
  next
    case False
    then have "gl this' = gl this @ flush_log (mesh this) [] \<and> list_all batch_ok []"
      using g by simp
    then show ?thesis by blast
  qed
  moreover have "filter is_texture_bind (gl this') = filter is_texture_bind (gl this)"
    using g by simp
  ultimately have "appends this (reference_drawTriangle ax ay au av bx by bu bv cx cy cu cv r g b a []) this'"
    using ok m unfolding appends_def by simp
  with eq show ?thesis by blast
qed

lemma reference_drawTriangle_append:
  "reference_drawTriangle ax ay au av bx by bu bv cx cy cu cv r g b a buf =
     buf @ reference_drawTriangle ax ay au av bx by bu bv cx cy cu cv r g b a []"
  by (simp add: reference_drawTriangle_def reference_addVertex_def)

lemma reference_drawQuad_append:
  "reference_drawQuad ax ay au av bx by bu bv cx cy cu cv dx dy du dv r g b a buf =
     buf @ reference_drawQuad ax ay au av bx by bu bv cx cy cu cv dx dy du dv r g b a []"
  by (simp add: reference_drawQuad_def reference_drawTriangle_def reference_addVertex_def)

lemma reference_drawQuad_triangles:
  "reference_drawQuad ax ay au av bx by bu bv cx cy cu cv dx dy du dv r g b a [] =
     reference_drawTriangle ax ay au av bx by bu bv cx cy cu cv r g b a [] @
     reference_drawTriangle ax ay au av cx cy cu cv dx dy du dv r g b a []"
  by (simp add: reference_drawQuad_def reference_drawTriangle_def reference_addVertex_def)

lemma drawQuad_appends:
  assumes "renderer_ok this"
  shows "\<exists>this'. Renderer_drawQuad ax ay au av bx by bu bv cx cy cu cv dx dy du dv r g b a this = Some this' \<and>
           appends this (reference_drawQuad ax ay au av bx by bu bv cx cy cu cv dx dy du dv r g b a []) this'"
proof -
  from drawTriangle_appends [OF assms] obtain t1 where
    e1: "Renderer_drawTriangle ax ay au av bx by bu bv cx cy cu cv r g b a this = Some t1"
    and a1: "appends this (reference_drawTriangle ax ay au av bx by bu bv cx cy cu cv r g b a []) t1"
    by blast
  have "renderer_ok t1" using a1 by (simp add: appends_def)
  from drawTriangle_appends [OF this] obtain t2 where
    e2: "Renderer_drawTriangle ax ay au av cx cy cu cv dx dy du dv r g b a t1 = Some t2"
    and a2: "appends t1 (reference_drawTriangle ax ay au av cx cy cu cv dx dy du dv r g b a []) t2"
    by blast
  show ?thesis
    using e1 e2 appends_trans [OF a1 a2]
    by (simp add: Renderer_drawQuad_def reference_drawQuad_triangles)
qed

lemma drawRectangle_appends:
  assumes "renderer_ok this"
  shows "\<exists>this'. Renderer_drawRectangle x y width' height' u0 v0 u1 v1 r g b a this = Some this' \<and>
           appends this (reference_drawRectangle x y width' height' u0 v0 u1 v1 r g b a []) this'"
  unfolding Renderer_drawRectangle_def reference_drawRectangle_def Let_def
  by (rule drawQuad_appends [OF assms])

lemma drawRectangleOffCenter_appends:
  assumes "renderer_ok this"
  shows "\<exists>this'. Renderer_drawRectangleOffCenter x y width' height' u0 v0 u1 v1 r g b a this = Some this' \<and>
           appends this (reference_drawRectangleOffCenter x y width' height' u0 v0 u1 v1 r g b a []) this'"
  unfolding Renderer_drawRectangleOffCenter_def reference_drawRectangleOffCenter_def Let_def
  by (rule drawQuad_appends [OF assms])

lemma drawRotatedRectangleOffCenter_appends:
  assumes "renderer_ok this"
  shows "\<exists>this'. Renderer_drawRotatedRectangleOffCenter x y width' height' angle u0 v0 u1 v1 r g b a this = Some this' \<and>
           appends this (reference_drawRotatedRectangleOffCenter x y width' height' angle u0 v0 u1 v1 r g b a []) this'"
  unfolding Renderer_drawRotatedRectangleOffCenter_def reference_drawRotatedRectangleOffCenter_def Let_def
  by (rule drawQuad_appends [OF assms])

lemma reference_drawChar_append:
  "reference_drawChar font x y charCode' size' r g b a buf =
     buf @ reference_drawChar font x y charCode' size' r g b a []"
  by (simp add: reference_drawChar_def reference_drawRectangle_def
      reference_drawQuad_append [of _ _ _ _ _ _ _ _ _ _ _ _ _ _ _ _ _ _ _ _ buf]
      split: option.split)

lemma drawChar_appends:
  assumes "renderer_ok this"
  shows "\<exists>this'. Renderer_drawChar font x y charCode' size' r g b a this = Some this' \<and>
           appends this (reference_drawChar font x y charCode' size' r g b a []) this'"
proof (cases "get_property (glyphs font) charCode'")
  case None
  then show ?thesis
    using assms by (simp add: Renderer_drawChar_def reference_drawChar_def appends_refl)
next
  case (Some glyph)
  then show ?thesis
    using drawRectangle_appends [OF assms]
    by (simp add: Renderer_drawChar_def reference_drawChar_def)
qed

lemma reference_drawString_loop_append:
  "reference_drawString_loop font x y size' r g b a str offset buf =
     buf @ reference_drawString_loop font x y size' r g b a str offset []"
proof (induction str arbitrary: offset buf)
  case Nil
  then show ?case by simp
next
  case (Cons c str)
  show ?case
  proof (cases "get_property (glyphs font) (real c)")
    case None
    then show ?thesis using Cons.IH [of offset buf] by simp
  next
    case (Some glyph)
    let ?d = "reference_drawChar font (x + offset) y (real c) size' r g b a"
    have "reference_drawString_loop font x y size' r g b a str (offset + size' * advance glyph) (?d buf) =
          ?d buf @ reference_drawString_loop font x y size' r g b a str (offset + size' * advance glyph) []"
      by (rule Cons.IH)
    moreover have "reference_drawString_loop font x y size' r g b a str (offset + size' * advance glyph) (?d []) =
          ?d [] @ reference_drawString_loop font x y size' r g b a str (offset + size' * advance glyph) []"
      by (rule Cons.IH)
    moreover have "?d buf = buf @ ?d []" by (rule reference_drawChar_append)
    ultimately show ?thesis using Some by simp
  qed
qed

lemma drawString_loop_appends:
  assumes "renderer_ok this"
  shows "\<exists>this' offset'. drawString_loop font x y size' r g b a str offset this = Some (this', offset') \<and>
           appends this (reference_drawString_loop font x y size' r g b a str offset []) this'"
  using assms
proof (induction str arbitrary: offset this)
  case Nil
  then show ?case by (simp add: appends_refl)
next
  case (Cons c str)
  show ?case
  proof (cases "get_property (glyphs font) (real c)")
    case None
    then show ?thesis using Cons.IH [OF Cons.prems] by simp
  next
    case (Some glyph)
    from drawChar_appends [OF Cons.prems] obtain t1 where
      e1: "Renderer_drawChar font (x + offset) y (real c) size' r g b a this = Some t1"
      and a1: "appends this (reference_drawChar font (x + offset) y (real c) size' r g b a []) t1"
      by blast
    have ok1: "renderer_ok t1" using a1 by (simp add: appends_def)
    from Cons.IH [OF ok1, of "offset + size' * advance glyph"] obtain t2 o2 where
      e2: "drawString_loop font x y size' r g b a str (offset + size' * advance glyph) t1 = Some (t2, o2)"
      and a2: "appends t1 (reference_drawString_loop font x y size' r g b a str (offset + size' * advance glyph) []) t2"
      by blast
    show ?thesis
      using Some e1 e2 appends_trans [OF a1 a2]
        reference_drawString_loop_append [of font x y size' r g b a str "offset + size' * advance glyph"
          "reference_drawChar font (x + offset) y (real c) size' r g b a []"]
      by simp
  qed
qed

lemma drawString_appends:
  assumes "renderer_ok this"
  shows "\<exists>this'. Renderer_drawString font x y str size' r g b a this = Some this' \<and>
           appends this (reference_drawString font x y str size' r g b a []) this'"
  using drawString_loop_appends [OF assms, of font x y size' r g b a str 0]
  by (auto simp: Renderer_drawString_def reference_drawString_def)

lemma drawStringOffCenter_appends:
  assumes "renderer_ok this"
  shows "\<exists>this'. Renderer_drawStringOffCenter font x y str size' r g b a this = Some this' \<and>
           appends this (reference_drawStringOffCenter font x y str size' r g b a []) this'"
  unfolding Renderer_drawStringOffCenter_def reference_drawStringOffCenter_def Let_def
  by (rule drawString_appends [OF assms])

lemma Renderer_call_appends:
  assumes "renderer_ok this"
  shows "\<exists>this'. Renderer_call c this = Some this' \<and> appends this (reference_call c []) this'"
proof (cases c)
qed (simp_all add: drawTriangle_appends drawQuad_appends drawRectangle_appends
      drawRectangleOffCenter_appends drawRotatedRectangleOffCenter_appends drawChar_appends
      drawString_appends drawStringOffCenter_appends assms)


lemma reference_call_append: "reference_call c buf = buf @ reference_call c []"
proof (cases c)
  case (DrawTriangle ax ay au av bx "by" bu bv cx cy cu cv r g b a)
  then show ?thesis using reference_drawTriangle_append [of _ _ _ _ _ _ _ _ _ _ _ _ _ _ _ _ buf] by simp
next
  case (DrawQuad ax ay au av bx "by" bu bv cx cy cu cv dx dy du dv r g b a)
  then show ?thesis using reference_drawQuad_append [of _ _ _ _ _ _ _ _ _ _ _ _ _ _ _ _ _ _ _ _ buf] by simp
next
  case (DrawRectangle x y w h u0 v0 u1 v1 r g b a)
  then show ?thesis
    using reference_drawQuad_append [of _ _ _ _ _ _ _ _ _ _ _ _ _ _ _ _ _ _ _ _ buf]
    by (simp add: reference_drawRectangle_def)
next
  case (DrawRectangleOffCenter x y w h u0 v0 u1 v1 r g b a)
  then show ?thesis
    using reference_drawQuad_append [of _ _ _ _ _ _ _ _ _ _ _ _ _ _ _ _ _ _ _ _ buf]
    by (simp add: reference_drawRectangleOffCenter_def)
next
  case (DrawRotatedRectangleOffCenter x y w h angle u0 v0 u1 v1 r g b a)
  then show ?thesis
    using reference_drawQuad_append [of _ _ _ _ _ _ _ _ _ _ _ _ _ _ _ _ _ _ _ _ buf]
    by (simp add: reference_drawRotatedRectangleOffCenter_def)
next
  case (DrawChar font x y c s r g b a)
  then show ?thesis using reference_drawChar_append [of _ _ _ _ _ _ _ _ _ buf] by simp
next
  case (DrawString font x y str s r g b a)
  then show ?thesis
    using reference_drawString_loop_append [of _ _ _ _ _ _ _ _ _ _ buf]
    by (simp add: reference_drawString_def)
next
  case (DrawStringOffCenter font x y str s r g b a)
  then show ?thesis
    using reference_drawString_loop_append [of _ _ _ _ _ _ _ _ _ _ buf]
    by (simp add: reference_drawStringOffCenter_def reference_drawString_def)
qed

lemma fold_reference_call:
  "fold reference_call cs buf = buf @ concat (map (\<lambda>c. reference_call c []) cs)"
proof (induction cs arbitrary: buf)
  case Nil
  then show ?case by simp
next
  case (Cons c cs)
  show ?case
    using Cons.IH [of "reference_call c buf"] reference_call_append [of c buf] by simp
qed

lemma reference_stream_concat:
  "reference_stream cs = concat (map (\<lambda>c. reference_call c []) cs)"
  by (simp add: reference_stream_def fold_reference_call)

lemma reference_stream_append [simp]:
  "reference_stream (cs @ ds) = reference_stream cs @ reference_stream ds"
  by (simp add: reference_stream_concat)

lemma replay_appends:
  assumes "renderer_ok this"
  shows "\<exists>this'. replay cs this = Some this' \<and> appends this (reference_stream cs) this'"
  using assms
proof (induction cs arbitrary: this)
  case Nil
  then show ?case by (simp add: appends_refl reference_stream_concat)
next
  case (Cons c cs)
  from Renderer_call_appends [OF Cons.prems] obtain t1 where
    e1: "Renderer_call c this = Some t1" and a1: "appends this (reference_call c []) t1"
    by blast
  have "renderer_ok t1" using a1 by (simp add: appends_def)
  from Cons.IH [OF this] obtain t2 where
    e2: "replay cs t1 = Some t2" and a2: "appends t1 (reference_stream cs) t2"
    by blast
  show ?case
    using e1 e2 appends_trans [OF a1 a2] by (simp add: reference_stream_concat)
qed

lemma uploaded_endGeometry_statement:
  "uploaded (gl (endGeometry_statement this)) = stream this"
proof (cases "vertexCount this = 0")
  case True
  then show ?thesis
    by (simp add: endGeometry_statement_def endGeometry_None stream_def pending_def)
next
  case False
  have "uploaded (flush_calls (mesh this) (vertices this) (vertexCount this)) = pending this"
    by (simp add: uploaded_flush_calls [OF False] pending_def)
  then show ?thesis
    by (simp add: endGeometry_statement_def endGeometry_Some [OF False] stream_def)
qed

lemma renderer_ok_beginGeometry:
  "length (vertices this) = VERTEX_ELEMENTS * MAX_VERTICES \<Longrightarrow>
   renderer_ok (Renderer_beginGeometry this)"
  by (simp add: renderer_ok_def MAX_VERTICES_def)

lemma stream_beginGeometry [simp]:
  "stream (Renderer_beginGeometry this) = uploaded (gl this)"
  by (simp add: stream_def)

text \<open>
  Claim C1. For any sequence of emitter calls issued after \<^verbatim>\<open>beginGeometry()\<close> and
  closed by \<^verbatim>\<open>endGeometry()\<close>, whatever its total vertex count, no call throws and
  the calls issued are exactly those of a sequence of draw batches, one per auto-flush and
  one for the final \<^verbatim>\<open>endGeometry()\<close>: each batch uploads \<open>8 * n\<close> floats from the
  start of the scratch array and then draws \<open>n\<close> vertices, with \<open>0 < n \<le> MAX_VERTICES\<close>.
  The floats of these draw batches, concatenated in the order of the draw calls, are the
  floats the unbounded-buffer reference writes for the same calls: same content, same
  order, split across the draw calls. (The statement covers the five shape emitters and
  the three text emitters, which emit through \<^verbatim>\<open>drawRectangle\<close>.)
\<close>

theorem auto_flush_refines_reference:
  assumes "length (vertices this) = VERTEX_ELEMENTS * MAX_VERTICES"
  shows "\<exists>this' batches.
           replay commands (Renderer_beginGeometry this) = Some this' \<and>
           gl (endGeometry_statement this') = gl this @ flush_log (mesh this) batches \<and>
           list_all batch_ok batches \<and>
           concat (map batch_floats batches) = reference_stream commands"
proof -
  from replay_appends [OF renderer_ok_beginGeometry [OF assms], of commands]
  obtain this' where e: "replay commands (Renderer_beginGeometry this) = Some this'"
    and a: "appends (Renderer_beginGeometry this) (reference_stream commands) this'"
    by blast
  from a obtain bs where
    g: "gl this' = gl this @ flush_log (mesh this) bs" and bs: "list_all batch_ok bs"
    unfolding appends_def by auto
  have ok: "renderer_ok this'" and m: "mesh this' = mesh this"
    using a by (simp_all add: appends_def)
  have up: "uploaded (gl (endGeometry_statement this')) =
            uploaded (gl this) @ reference_stream commands"
    using a by (simp add: uploaded_endGeometry_statement appends_def)
  obtain batches where
    gf: "gl (endGeometry_statement this') = gl this @ flush_log (mesh this) batches"
    and bf: "list_all batch_ok batches"
  proof (cases "vertexCount this' = 0")
    case True
    then have "gl (endGeometry_statement this') = gl this @ flush_log (mesh this) bs"
      using g by (simp add: endGeometry_statement_def endGeometry_None)
    then show ?thesis using bs that by blast
  next
    case False
    have "gl (endGeometry_statement this') =
          gl this @ flush_log (mesh this) (bs @ [(vertices this', vertexCount this')])"
      using g m by (simp add: endGeometry_statement_def endGeometry_Some [OF False])
    moreover have "list_all batch_ok (bs @ [(vertices this', vertexCount this')])"
      using bs ok False by (simp add: batch_ok_def renderer_ok_def)
    ultimately show ?thesis using that by blast
  qed
  have "uploaded (gl this) @ concat (map batch_floats batches) =
        uploaded (gl this) @ reference_stream commands"
    using up gf by (simp add: uploaded_flush_log [OF bf])
  then have "concat (map batch_floats batches) = reference_stream commands"
    by simp
  with e gf bf show ?thesis by blast
qed

theorem auto_flush_refines_reference_witness:
  "length (vertices renderer0) = VERTEX_ELEMENTS * MAX_VERTICES \<and>
   (\<exists>this' batches.
      replay (replicate 21846 (DrawTriangle 0 0 0 0 4 0 1 0 0 3 0 1 1 1 1 1))
        (Renderer_beginGeometry renderer0) = Some this' \<and>
      gl (endGeometry_statement this') = flush_log (mesh renderer0) batches \<and>
      list_all batch_ok batches \<and>
      concat (map batch_floats batches) =
        reference_stream (replicate 21846 (DrawTriangle 0 0 0 0 4 0 1 0 0 3 0 1 1 1 1 1)))"
proof -
  have len: "length (vertices renderer0) = VERTEX_ELEMENTS * MAX_VERTICES"
    by (simp add: renderer0_def)
  have gl0: "gl renderer0 = []" by (simp add: renderer0_def)
  have "\<exists>this' batches.
      replay (replicate 21846 (DrawTriangle 0 0 0 0 4 0 1 0 0 3 0 1 1 1 1 1))
        (Renderer_beginGeometry renderer0) = Some this' \<and>
      gl (endGeometry_statement this') = flush_log (mesh renderer0) batches \<and>
      list_all batch_ok batches \<and>
      concat (map batch_floats batches) =
        reference_stream (replicate 21846 (DrawTriangle 0 0 0 0 4 0 1 0 0 3 0 1 1 1 1 1))"
    using auto_flush_refines_reference [OF len,
        of "replicate 21846 (DrawTriangle 0 0 0 0 4 0 1 0 0 3 0 1 1 1 1 1)"]
    unfolding gl0 append_Nil .
  with len show ?thesis by (rule conjI)
qed

section \<open>Renderer: where an auto-flush falls\<close>

lemma length_reference_drawTriangle [simp]:
  "length (reference_drawTriangle ax ay au av bx by bu bv cx cy cu cv r g b a []) = 24"
  by (simp add: reference_drawTriangle_def reference_addVertex_def)

lemma filter_is_draw_flush_calls [simp]:
  "filter is_draw (flush_calls m vs n) = [DrawArrays TRIANGLES 0 n]"
  by (simp add: flush_calls_def is_draw_def)

lemma drawQuad_effect:
  assumes "renderer_ok this"
  shows "\<exists>this'. Renderer_drawQuad ax ay au av bx by bu bv cx cy cu cv dx dy du dv r g b a this = Some this' \<and>
     renderer_ok this' \<and>
     (if MAX_VERTICES \<le> vertexCount this + 3 then
        gl this' = gl this @ flush_calls (mesh this) (vertices this) (vertexCount this) \<and>
        pending this' = reference_drawTriangle ax ay au av bx by bu bv cx cy cu cv r g b a [] @
                        reference_drawTriangle ax ay au av cx cy cu cv dx dy du dv r g b a [] \<and>
        vertexCount this' = 6
      else if MAX_VERTICES \<le> vertexCount this + 6 then
        uploaded (gl this') = uploaded (gl this) @ pending this @
                        reference_drawTriangle ax ay au av bx by bu bv cx cy cu cv r g b a [] \<and>
        filter is_draw (gl this') =
          filter is_draw (gl this) @ [DrawArrays TRIANGLES 0 (vertexCount this + 3)] \<and>
        pending this' = reference_drawTriangle ax ay au av cx cy cu cv dx dy du dv r g b a [] \<and>
        vertexCount this' = 3
      else
        gl this' = gl this \<and>
        pending this' = pending this @
                        reference_drawTriangle ax ay au av bx by bu bv cx cy cu cv r g b a [] @
                        reference_drawTriangle ax ay au av cx cy cu cv dx dy du dv r g b a [] \<and>
        vertexCount this' = vertexCount this + 6)"
proof -
  from drawTriangle_effect [OF assms, of ax ay au av bx "by" bu bv cx cy cu cv r g b a]
  obtain t1 where
    e1: "Renderer_drawTriangle ax ay au av bx by bu bv cx cy cu cv r g b a this = Some t1"
    and ok1: "renderer_ok t1" and m1: "mesh t1 = mesh this"
    and g1: "gl t1 = gl this @ (if MAX_VERTICES \<le> vertexCount this + 3
                                 then flush_calls (mesh this) (vertices this) (vertexCount this) else [])"
    and p1: "pending t1 = (if MAX_VERTICES \<le> vertexCount this + 3 then [] else pending this) @
                           reference_drawTriangle ax ay au av bx by bu bv cx cy cu cv r g b a []"
    and c1: "vertexCount t1 = (if MAX_VERTICES \<le> vertexCount this + 3 then 3 else vertexCount this + 3)"
    by blast
  from drawTriangle_effect [OF ok1, of ax ay au av cx cy cu cv dx dy du dv r g b a]
  obtain t2 where
    e2: "Renderer_drawTriangle ax ay au av cx cy cu cv dx dy du dv r g b a t1 = Some t2"
    and ok2: "renderer_ok t2"
    and g2: "gl t2 = gl t1 @ (if MAX_VERTICES \<le> vertexCount t1 + 3
                                 then flush_calls (mesh t1) (vertices t1) (vertexCount t1) else [])"
    and p2: "pending t2 = (if MAX_VERTICES \<le> vertexCount t1 + 3 then [] else pending t1) @
                           reference_drawTriangle ax ay au av cx cy cu cv dx dy du dv r g b a []"
    and c2: "vertexCount t2 = (if MAX_VERTICES \<le> vertexCount t1 + 3 then 3 else vertexCount t1 + 3)"
    by blast
  have eq: "Renderer_drawQuad ax ay au av bx by bu bv cx cy cu cv dx dy du dv r g b a this = Some t2"
    using e1 e2 by (simp add: Renderer_drawQuad_def)
  have six: "\<not> MAX_VERTICES \<le> 6" by (simp add: MAX_VERTICES_def)
  consider (before) "MAX_VERTICES \<le> vertexCount this + 3"
    | (between) "\<not> MAX_VERTICES \<le> vertexCount this + 3" "MAX_VERTICES \<le> vertexCount this + 6"
    | (none) "\<not> MAX_VERTICES \<le> vertexCount this + 6"
    by linarith
  then show ?thesis
  proof cases
    case before
    then show ?thesis
      using eq ok2 g1 p1 c1 g2 p2 c2 six by simp
  next
    case between
    then have nz: "vertexCount t1 \<noteq> 0" using c1 by simp
    have up: "uploaded (flush_calls (mesh t1) (vertices t1) (vertexCount t1)) = pending t1"
      by (simp add: uploaded_flush_calls [OF nz] pending_def)
    have c1': "vertexCount t1 + 3 = vertexCount this + 6" using between c1 by simp
    show ?thesis
      using between eq ok2 g1 p1 c1 g2 p2 c2 up c1' by simp
  next
    case none
    then have a: "\<not> MAX_VERTICES \<le> vertexCount this + 3" by simp
    have c1': "vertexCount t1 + 3 = vertexCount this + 6" using a c1 by simp
    show ?thesis
      using none a eq ok2 g1 p1 c1 g2 p2 c2 c1' by simp
  qed
qed


lemma replay_triangles:
  assumes "renderer_ok this" and "vertexCount this + 3 * n < MAX_VERTICES"
  shows "\<exists>t. replay (replicate n (DrawTriangle ax ay au av bx by bu bv cx cy cu cv r g b a)) this = Some t \<and>
           renderer_ok t \<and> vertexCount t = vertexCount this + 3 * n \<and> gl t = gl this"
  using assms
proof (induction n arbitrary: this)
  case 0
  then show ?case by simp
next
  case (Suc n)
  have nf: "\<not> MAX_VERTICES \<le> vertexCount this + 3" using Suc.prems(2) by simp
  from drawTriangle_effect [OF Suc.prems(1), of ax ay au av bx "by" bu bv cx cy cu cv r g b a]
  obtain t1 where
    e1: "Renderer_drawTriangle ax ay au av bx by bu bv cx cy cu cv r g b a this = Some t1"
    and ok1: "renderer_ok t1" and g1: "gl t1 = gl this" and c1: "vertexCount t1 = vertexCount this + 3"
    using nf by auto
  have "vertexCount t1 + 3 * n < MAX_VERTICES" using Suc.prems(2) c1 by simp
  from Suc.IH [OF ok1 this] obtain t where
    "replay (replicate n (DrawTriangle ax ay au av bx by bu bv cx cy cu cv r g b a)) t1 = Some t"
    "renderer_ok t" "vertexCount t = vertexCount t1 + 3 * n" "gl t = gl t1"
    by blast
  then show ?case using e1 g1 c1 by simp
qed

text \<open>
  Claim C2, as stated: every shape emitter checks the capacity before it emits the shape,
  so that all vertices of one shape land in the same draw batch. It fails for
  \<^verbatim>\<open>drawQuad\<close> after 21843 triangles: with 65529 vertices accumulated the quad's first
  triangle still fits, the check of its second triangle flushes, and the quad is split.
\<close>

theorem quad_split_counterexample:
  "\<not> emitted_in_one_batch
       (replicate 21843 (DrawTriangle 0 0 0 0 4 0 1 0 0 3 0 1 1 1 1 1))
       (DrawQuad 0 0 0 0 4 0 1 0 4 3 1 1 0 3 0 1 1 1 1 1)
       (Renderer_beginGeometry renderer0)"
proof -
  let ?b = "Renderer_beginGeometry renderer0"
  have ok: "renderer_ok ?b"
    by (rule renderer_ok_beginGeometry) (simp add: renderer0_def)
  have cap: "vertexCount ?b + 3 * 21843 < MAX_VERTICES" by (simp add: MAX_VERTICES_def)
  from replay_triangles [OF ok cap, of 0 0 0 0 4 0 1 0 0 3 0 1 1 1 1 1] obtain t where
    e: "replay (replicate 21843 (DrawTriangle 0 0 0 0 4 0 1 0 0 3 0 1 1 1 1 1)) ?b = Some t"
    and okt: "renderer_ok t" and ct: "vertexCount t = 65529"
    by auto
  have between: "\<not> MAX_VERTICES \<le> vertexCount t + 3" "MAX_VERTICES \<le> vertexCount t + 6"
    using ct by (simp_all add: MAX_VERTICES_def)
  from drawQuad_effect [OF okt, of 0 0 0 0 4 0 1 0 4 3 1 1 0 3 0 1 1 1 1 1] between
  obtain t' where
    e': "Renderer_drawQuad 0 0 0 0 4 0 1 0 4 3 1 1 0 3 0 1 1 1 1 1 t = Some t'"
    and d: "filter is_draw (gl t') = filter is_draw (gl t) @ [DrawArrays TRIANGLES 0 (vertexCount t + 3)]"
    and p: "pending t' = reference_drawTriangle 0 0 0 0 4 3 1 1 0 3 0 1 1 1 1 1 []"
    by auto
  have "gl t' \<noteq> gl t" using d by auto
  moreover have "length (pending t') = 24" using p by simp
  moreover have "length (reference_call (DrawQuad 0 0 0 0 4 0 1 0 4 3 1 1 0 3 0 1 1 1 1 1) []) = 48"
    by (simp add: reference_drawQuad_triangles)
  ultimately show ?thesis
    using e e' by (auto simp: emitted_in_one_batch_def)
qed


lemma drawTriangle_batches:
  assumes "renderer_ok this"
  shows "\<exists>this'. Renderer_drawTriangle ax ay au av bx by bu bv cx cy cu cv r g b a this = Some this' \<and>
     (if MAX_VERTICES \<le> vertexCount this + 3 then
        gl this' = gl this @ flush_calls (mesh this) (vertices this) (vertexCount this) \<and>
        pending this' = reference_drawTriangle ax ay au av bx by bu bv cx cy cu cv r g b a []
      else
        gl this' = gl this \<and>
        pending this' = pending this @
           reference_drawTriangle ax ay au av bx by bu bv cx cy cu cv r g b a [])"
  using drawTriangle_effect [OF assms, of ax ay au av bx "by" bu bv cx cy cu cv r g b a]
  by auto

lemma drawQuad_batches:
  assumes "renderer_ok this"
  shows "\<exists>this'. Renderer_drawQuad ax ay au av bx by bu bv cx cy cu cv dx dy du dv r g b a this = Some this' \<and>
     (if MAX_VERTICES \<le> vertexCount this + 3 then
        gl this' = gl this @ flush_calls (mesh this) (vertices this) (vertexCount this) \<and>
        pending this' = reference_drawQuad ax ay au av bx by bu bv cx cy cu cv dx dy du dv r g b a []
      else if MAX_VERTICES \<le> vertexCount this + 6 then
        uploaded (gl this') = uploaded (gl this) @ pending this @
          take 24 (reference_drawQuad ax ay au av bx by bu bv cx cy cu cv dx dy du dv r g b a []) \<and>
        filter is_draw (gl this') =
          filter is_draw (gl this) @ [DrawArrays TRIANGLES 0 (vertexCount this + 3)] \<and>
        pending this' =
          drop 24 (reference_drawQuad ax ay au av bx by bu bv cx cy cu cv dx dy du dv r g b a [])
      else
        gl this' = gl this \<and>
        pending this' = pending this @
          reference_drawQuad ax ay au av bx by bu bv cx cy cu cv dx dy du dv r g b a [])"
proof -
  from drawQuad_effect [OF assms, of ax ay au av bx "by" bu bv cx cy cu cv dx dy du dv r g b a]
  obtain this' where
    "Renderer_drawQuad ax ay au av bx by bu bv cx cy cu cv dx dy du dv r g b a this = Some this'"
    and "if MAX_VERTICES \<le> vertexCount this + 3 then
        gl this' = gl this @ flush_calls (mesh this) (vertices this) (vertexCount this) \<and>
        pending this' = reference_drawTriangle ax ay au av bx by bu bv cx cy cu cv r g b a [] @
                        reference_drawTriangle ax ay au av cx cy cu cv dx dy du dv r g b a [] \<and>
        vertexCount this' = 6
      else if MAX_VERTICES \<le> vertexCount this + 6 then
        uploaded (gl this') = uploaded (gl this) @ pending this @
                        reference_drawTriangle ax ay au av bx by bu bv cx cy cu cv r g b a [] \<and>
        filter is_draw (gl this') =
          filter is_draw (gl this) @ [DrawArrays TRIANGLES 0 (vertexCount this + 3)] \<and>
        pending this' = reference_drawTriangle ax ay au av cx cy cu cv dx dy du dv r g b a [] \<and>
        vertexCount this' = 3
      else
        gl this' = gl this \<and>
        pending this' = pending this @
                        reference_drawTriangle ax ay au av bx by bu bv cx cy cu cv r g b a [] @
                        reference_drawTriangle ax ay au av cx cy cu cv dx dy du dv r g b a [] \<and>
        vertexCount this' = vertexCount this + 6"
    by blast
  then show ?thesis
    by (auto simp: reference_drawQuad_triangles split: if_splits)
qed

lemma length_reference_drawQuad [simp]:
  "length (reference_drawQuad ax ay au av bx by bu bv cx cy cu cv dx dy du dv r g b a []) = 48"
  by (simp add: reference_drawQuad_triangles)

lemma quad_shape_batches:
  assumes "renderer_ok this"
    and call: "Renderer_call c this =
                 Renderer_drawQuad ax ay au av bx by bu bv cx cy cu cv dx dy du dv r g b a this"
    and ref: "reference_call c [] =
                 reference_drawQuad ax ay au av bx by bu bv cx cy cu cv dx dy du dv r g b a []"
  shows "\<exists>this'. Renderer_call c this = Some this' \<and>
     (if MAX_VERTICES \<le> vertexCount this + 3 then
        gl this' = gl this @ flush_calls (mesh this) (vertices this) (vertexCount this) \<and>
        pending this' = reference_call c []
      else if MAX_VERTICES \<le> vertexCount this + 6 \<and> length (reference_call c []) = 48 then
        uploaded (gl this') = uploaded (gl this) @ pending this @ take 24 (reference_call c []) \<and>
        filter is_draw (gl this') =
          filter is_draw (gl this) @ [DrawArrays TRIANGLES 0 (vertexCount this + 3)] \<and>
        pending this' = drop 24 (reference_call c [])
      else
        gl this' = gl this \<and> pending this' = pending this @ reference_call c [])"
proof -
  from drawQuad_batches [OF assms(1), of ax ay au av bx "by" bu bv cx cy cu cv dx dy du dv r g b a]
  obtain this' where
    e: "Renderer_call c this = Some this'"
    and h: "if MAX_VERTICES \<le> vertexCount this + 3 then
        gl this' = gl this @ flush_calls (mesh this) (vertices this) (vertexCount this) \<and>
        pending this' = reference_call c []
      else if MAX_VERTICES \<le> vertexCount this + 6 then
        uploaded (gl this') = uploaded (gl this) @ pending this @ take 24 (reference_call c []) \<and>
        filter is_draw (gl this') =
          filter is_draw (gl this) @ [DrawArrays TRIANGLES 0 (vertexCount this + 3)] \<and>
        pending this' = drop 24 (reference_call c [])
      else
        gl this' = gl this \<and> pending this' = pending this @ reference_call c []"
    unfolding call ref by blast
  have len: "length (reference_call c []) = 48" by (simp add: ref)
  show ?thesis
  proof (intro exI conjI)
    show "Renderer_call c this = Some this'" by (rule e)
    show "if MAX_VERTICES \<le> vertexCount this + 3 then
        gl this' = gl this @ flush_calls (mesh this) (vertices this) (vertexCount this) \<and>
        pending this' = reference_call c []
      else if MAX_VERTICES \<le> vertexCount this + 6 \<and> length (reference_call c []) = 48 then
        uploaded (gl this') = uploaded (gl this) @ pending this @ take 24 (reference_call c []) \<and>
        filter is_draw (gl this') =
          filter is_draw (gl this) @ [DrawArrays TRIANGLES 0 (vertexCount this + 3)] \<and>
        pending this' = drop 24 (reference_call c [])
      else
        gl this' = gl this \<and> pending this' = pending this @ reference_call c []"
      using h unfolding len by (simp split: if_splits)
  qed
qed

text \<open>
  Claim C2, amended. Every shape emitter emits through \<^verbatim>\<open>drawTriangle\<close>, which checks
  the capacity before each triangle: when \<open>vertexCount + 3 \<ge> MAX_VERTICES\<close> it first ends
  the batch, issuing its draw call, and begins a new one. So an auto-flush never falls
  inside a triangle. A shape of one triangle is never split; for a shape of two triangles
  the flush falls before the shape (first case below), between its two triangles (second
  case: the first 24 floats go out with the old batch of \<open>vertexCount + 3\<close> vertices, the
  last 24 open the new batch), or not at all (third case).
\<close>

theorem flush_between_triangles:
  assumes "renderer_ok this" and "is_shape c"
  shows "\<exists>this'. Renderer_call c this = Some this' \<and>
     (if MAX_VERTICES \<le> vertexCount this + 3 then
        gl this' = gl this @ flush_calls (mesh this) (vertices this) (vertexCount this) \<and>
        pending this' = reference_call c []
      else if MAX_VERTICES \<le> vertexCount this + 6 \<and> length (reference_call c []) = 48 then
        uploaded (gl this') = uploaded (gl this) @ pending this @ take 24 (reference_call c []) \<and>
        filter is_draw (gl this') =
          filter is_draw (gl this) @ [DrawArrays TRIANGLES 0 (vertexCount this + 3)] \<and>
        pending this' = drop 24 (reference_call c [])
      else
        gl this' = gl this \<and> pending this' = pending this @ reference_call c [])"
proof (cases c)
  case (DrawTriangle ax ay au av bx "by" bu bv cx cy cu cv r g b a)
  then show ?thesis
    using drawTriangle_batches [OF assms(1), of ax ay au av bx "by" bu bv cx cy cu cv r g b a]
    by auto
next
  case (DrawQuad ax ay au av bx "by" bu bv cx cy cu cv dx dy du dv r g b a)
  show ?thesis
    by (rule quad_shape_batches [OF assms(1)]) (simp_all add: DrawQuad)
next
  case (DrawRectangle x y w h u0 v0 u1 v1 r g b a)
  show ?thesis
    by (rule quad_shape_batches [OF assms(1)])
      (simp_all add: DrawRectangle Renderer_drawRectangle_def reference_drawRectangle_def Let_def)
next
  case (DrawRectangleOffCenter x y w h u0 v0 u1 v1 r g b a)
  show ?thesis
    by (rule quad_shape_batches [OF assms(1)])
      (simp_all add: DrawRectangleOffCenter Renderer_drawRectangleOffCenter_def
        reference_drawRectangleOffCenter_def Let_def)
next
  case (DrawRotatedRectangleOffCenter x y w h angle u0 v0 u1 v1 r g b a)
  show ?thesis
    by (rule quad_shape_batches [OF assms(1)])
      (simp_all only: DrawRotatedRectangleOffCenter Renderer_call.simps reference_call.simps
        Renderer_drawRotatedRectangleOffCenter_def reference_drawRotatedRectangleOffCenter_def
        Let_def)
next
  case (DrawChar font x y cc s r g b a)
  then show ?thesis using assms(2) by (simp add: is_shape_def)
next
  case (DrawString font x y str s r g b a)
  then show ?thesis using assms(2) by (simp add: is_shape_def)
next
  case (DrawStringOffCenter font x y str s r g b a)
  then show ?thesis using assms(2) by (simp add: is_shape_def)
qed

theorem flush_between_triangles_witness:
  "renderer_ok (renderer0\<lparr>vertexCount := 65529\<rparr>) \<and>
   renderer_ok (renderer0\<lparr>vertexCount := 65532\<rparr>) \<and>
   is_shape quad0 \<and>
   (\<exists>this'. Renderer_call quad0 (renderer0\<lparr>vertexCount := 65529\<rparr>) = Some this' \<and>
      filter is_draw (gl this') = [DrawArrays TRIANGLES 0 65532] \<and>
      pending this' = [0, 0, 0, 0, 1, 1, 1, 1,  4, 3, 1, 1, 1, 1, 1, 1,  0, 3, 0, 1, 1, 1, 1, 1]) \<and>
   (\<exists>this'. Renderer_call quad0 (renderer0\<lparr>vertexCount := 65532\<rparr>) = Some this' \<and>
      filter is_draw (gl this') = [DrawArrays TRIANGLES 0 65532] \<and>
      pending this' = [0, 0, 0, 0, 1, 1, 1, 1,  4, 0, 1, 0, 1, 1, 1, 1,  4, 3, 1, 1, 1, 1, 1, 1,
                       0, 0, 0, 0, 1, 1, 1, 1,  4, 3, 1, 1, 1, 1, 1, 1,  0, 3, 0, 1, 1, 1, 1, 1])"
proof -
  let ?between = "renderer0\<lparr>vertexCount := 65529\<rparr>"
  let ?before = "renderer0\<lparr>vertexCount := 65532\<rparr>"
  have ok1: "renderer_ok ?between"
    by (simp add: renderer_ok_def renderer0_def MAX_VERTICES_def)
  have ok2: "renderer_ok ?before"
    by (simp add: renderer_ok_def renderer0_def MAX_VERTICES_def)
  have sh: "is_shape quad0" by (simp add: is_shape_def quad0_def)
  have gl1: "gl ?between = []" and gl2: "gl ?before = []" by (simp_all add: renderer0_def)
  have c1: "\<not> MAX_VERTICES \<le> vertexCount ?between + 3" "MAX_VERTICES \<le> vertexCount ?between + 6"
    by (simp_all add: MAX_VERTICES_def)
  have c2: "MAX_VERTICES \<le> vertexCount ?before + 3"
    by (simp add: MAX_VERTICES_def)
  have quad: "reference_call quad0 [] =
     [0, 0, 0, 0, 1, 1, 1, 1,  4, 0, 1, 0, 1, 1, 1, 1,  4, 3, 1, 1, 1, 1, 1, 1,
      0, 0, 0, 0, 1, 1, 1, 1,  4, 3, 1, 1, 1, 1, 1, 1,  0, 3, 0, 1, 1, 1, 1, 1]"
    by (simp add: quad0_def reference_drawQuad_def reference_drawTriangle_def
        reference_addVertex_def)
  have len: "length (reference_call quad0 []) = 48" by (simp add: quad)
  have w1: "\<exists>this'. Renderer_call quad0 ?between = Some this' \<and>
      filter is_draw (gl this') = [DrawArrays TRIANGLES 0 65532] \<and>
      pending this' = [0, 0, 0, 0, 1, 1, 1, 1,  4, 3, 1, 1, 1, 1, 1, 1,  0, 3, 0, 1, 1, 1, 1, 1]"
  proof -
    from flush_between_triangles [OF ok1 sh] obtain this' where
      e: "Renderer_call quad0 ?between = Some this'"
      and d: "filter is_draw (gl this') =
                filter is_draw (gl ?between) @ [DrawArrays TRIANGLES 0 (vertexCount ?between + 3)]"
      and p: "pending this' = drop 24 (reference_call quad0 [])"
      unfolding if_not_P [OF c1(1)] len using c1(2) by auto
    have "filter is_draw (gl this') = [DrawArrays TRIANGLES 0 65532]"
      using d by (simp add: renderer0_def)
    moreover have "pending this' =
        [0, 0, 0, 0, 1, 1, 1, 1,  4, 3, 1, 1, 1, 1, 1, 1,  0, 3, 0, 1, 1, 1, 1, 1]"
      using p by (simp add: quad)
    ultimately show ?thesis using e by blast
  qed
  have w2: "\<exists>this'. Renderer_call quad0 ?before = Some this' \<and>
      filter is_draw (gl this') = [DrawArrays TRIANGLES 0 65532] \<and>
      pending this' = [0, 0, 0, 0, 1, 1, 1, 1,  4, 0, 1, 0, 1, 1, 1, 1,  4, 3, 1, 1, 1, 1, 1, 1,
                       0, 0, 0, 0, 1, 1, 1, 1,  4, 3, 1, 1, 1, 1, 1, 1,  0, 3, 0, 1, 1, 1, 1, 1]"
  proof -
    from flush_between_triangles [OF ok2 sh] obtain this' where
      e: "Renderer_call quad0 ?before = Some this'"
      and g: "gl this' = gl ?before @ flush_calls (mesh ?before) (vertices ?before) (vertexCount ?before)"
      and p: "pending this' = reference_call quad0 []"
      unfolding if_P [OF c2] by auto
    have "filter is_draw (gl this') = [DrawArrays TRIANGLES 0 65532]"
      using g by (simp add: renderer0_def)
    moreover have "pending this' =
        [0, 0, 0, 0, 1, 1, 1, 1,  4, 0, 1, 0, 1, 1, 1, 1,  4, 3, 1, 1, 1, 1, 1, 1,
         0, 0, 0, 0, 1, 1, 1, 1,  4, 3, 1, 1, 1, 1, 1, 1,  0, 3, 0, 1, 1, 1, 1, 1]"
      using p by (simp add: quad)
    ultimately show ?thesis using e by blast
  qed
  from ok1 ok2 sh w1 w2 show ?thesis by (intro conjI)
qed

section \<open>SpriteBatch\<close>

text \<open>Each draw method of the batch records one call.\<close>

lemma draw_methods_record:
  "SpriteBatch_drawTriangle texture ax ay au av bx by bu bv cx cy cu cv r g b a this =
     record_calls [(texture, DrawTriangle ax ay au av bx by bu bv cx cy cu cv r g b a)] this"
  "SpriteBatch_drawQuad texture ax ay au av bx by bu bv cx cy cu cv dx dy du dv r g b a this =
     record_calls [(texture, DrawQuad ax ay au av bx by bu bv cx cy cu cv dx dy du dv r g b a)] this"
  "SpriteBatch_drawRectangle texture x y width' height' u0 v0 u1 v1 r g b a this =
     record_calls [(texture, DrawRectangle x y width' height' u0 v0 u1 v1 r g b a)] this"
  "SpriteBatch_drawRectangleOffCenter texture x y width' height' u0 v0 u1 v1 r g b a this =
     record_calls [(texture, DrawRectangleOffCenter x y width' height' u0 v0 u1 v1 r g b a)] this"
  "SpriteBatch_drawRotatedRectangleOffCenter texture x y width' height' angle u0 v0 u1 v1 r g b a this =
     record_calls
       [(texture, DrawRotatedRectangleOffCenter x y width' height' angle u0 v0 u1 v1 r g b a)] this"
  "SpriteBatch_drawChar texture font x y charCode' size' r g b a this =
     record_calls [(texture, DrawChar font x y charCode' size' r g b a)] this"
  "SpriteBatch_drawString texture font x y str size' r g b a this =
     record_calls [(texture, DrawString font x y str size' r g b a)] this"
  "SpriteBatch_drawStringOffCenter texture font x y str size' r g b a this =
     record_calls [(texture, DrawStringOffCenter font x y str size' r g b a)] this"
  by (simp_all add: record_calls_def SpriteBatch_drawTriangle_def SpriteBatch_drawQuad_def
      SpriteBatch_drawRectangle_def SpriteBatch_drawRectangleOffCenter_def
      SpriteBatch_drawRotatedRectangleOffCenter_def SpriteBatch_drawChar_def
      SpriteBatch_drawString_def SpriteBatch_drawStringOffCenter_def)

lemma set_first_uses [simp]: "set (first_uses xs) = set xs"
  by (induction xs) auto

lemma distinct_first_uses [simp]: "distinct (first_uses xs)"
  by (induction xs) auto

lemma first_uses_snoc:
  "first_uses (xs @ [t]) = (if t \<in> set xs then first_uses xs else first_uses xs @ [t])"
proof (induction xs)
  case Nil
  then show ?case by simp
next
  case (Cons x xs)
  then show ?case by auto
qed

lemma commands_for_snoc:
  "commands_for t (cs @ [(t', c)]) = (if t' = t then commands_for t cs @ [c] else commands_for t cs)"
  by (simp add: commands_for_def)

lemma buckets_record_calls_snoc:
  "record_calls (cs @ [(t, c)]) this = SpriteBatch_addCommand t c (record_calls cs this)"
  by (simp add: record_calls_def)

lemma buckets_record_calls:
  "buckets (record_calls cs (SpriteBatch_begin this)) =
     map (\<lambda>t. (t, commands_for t cs)) (first_uses (map fst cs))"
proof (induction cs rule: rev_induct)
  case Nil
  then show ?case by (simp add: record_calls_def SpriteBatch_begin_def)
next
  case (snoc p cs)
  obtain t c where p: "p = (t, c)" by (cases p)
  let ?b = "record_calls cs (SpriteBatch_begin this)"
  have keys: "set (map fst (buckets ?b)) = set (map fst cs)"
    by (simp add: snoc.IH comp_def)
  show ?case
  proof (cases "t \<in> set (map fst cs)")
    case True
    have "buckets (SpriteBatch_addCommand t c ?b) =
          map (\<lambda>(t', commands). if t' = t then (t', commands @ [c]) else (t', commands)) (buckets ?b)"
      using True keys by (simp add: SpriteBatch_addCommand_def)
    also have "\<dots> = map (\<lambda>t'. (t', commands_for t' (cs @ [(t, c)]))) (first_uses (map fst cs))"
      by (simp add: snoc.IH commands_for_snoc comp_def)
    finally show ?thesis
      using True by (simp add: p buckets_record_calls_snoc first_uses_snoc)
  next
    case False
    have none: "commands_for t cs = []"
      using False by (auto simp: commands_for_def filter_empty_conv)
    have "buckets (SpriteBatch_addCommand t c ?b) = buckets ?b @ [(t, [c])]"
      using False keys by (simp add: SpriteBatch_addCommand_def)
    also have "\<dots> = map (\<lambda>t'. (t', commands_for t' (cs @ [(t, c)]))) (first_uses (map fst cs) @ [t])"
      using False by (auto simp: snoc.IH commands_for_snoc none)
    finally show ?thesis
      using False by (simp add: p buckets_record_calls_snoc first_uses_snoc)
  qed
qed

lemma endGeometry_statement_frame [simp]:
  "vertices (endGeometry_statement this) = vertices this"
  "mesh (endGeometry_statement this) = mesh this"
  "filter is_texture_bind (gl (endGeometry_statement this)) = filter is_texture_bind (gl this)"
  by (cases "vertexCount this = 0";
      simp add: endGeometry_statement_def endGeometry_None endGeometry_Some)+

lemma end_loop_effect:
  assumes "length (vertices this) = VERTEX_ELEMENTS * MAX_VERTICES"
  shows "\<exists>this'. end_loop textures bs this = Some this' \<and>
           length (vertices this') = VERTEX_ELEMENTS * MAX_VERTICES \<and>
           mesh this' = mesh this \<and>
           uploaded (gl this') = uploaded (gl this) @ bucket_stream bs \<and>
           filter is_texture_bind (gl this') =
             filter is_texture_bind (gl this) @ bucket_binds textures bs"
  using assms
proof (induction bs arbitrary: this)
  case Nil
  then show ?case by (simp add: bucket_stream_def bucket_binds_def)
next
  case (Cons b bs)
  obtain t cs where b: "b = (t, cs)" by (cases b)
  let ?bound = "this\<lparr>gl := Texture_bind (textures t) 0 (gl this)\<rparr>"
  let ?begun = "Renderer_beginGeometry ?bound"
  have ok: "renderer_ok ?begun"
    by (rule renderer_ok_beginGeometry) (simp add: Cons.prems)
  from replay_appends [OF ok, of cs] obtain t1 where
    e1: "replay cs ?begun = Some t1" and a1: "appends ?begun (reference_stream cs) t1"
    by blast
  let ?ended = "endGeometry_statement t1"
  have len1: "length (vertices ?ended) = VERTEX_ELEMENTS * MAX_VERTICES"
    using a1 by (simp add: appends_def renderer_ok_def)
  from Cons.IH [OF len1] obtain t2 where
    e2: "end_loop textures bs ?ended = Some t2"
    and l2: "length (vertices t2) = VERTEX_ELEMENTS * MAX_VERTICES"
    and m2: "mesh t2 = mesh ?ended"
    and u2: "uploaded (gl t2) = uploaded (gl ?ended) @ bucket_stream bs"
    and b2: "filter is_texture_bind (gl t2) =
             filter is_texture_bind (gl ?ended) @ bucket_binds textures bs"
    by blast
  have up_bind: "uploaded (Texture_bind (textures t) 0 (gl this)) = uploaded (gl this)"
    by (simp add: Texture_bind_def uploaded_def transferred_def)
  have u1: "uploaded (gl ?ended) = uploaded (gl this) @ reference_stream cs"
    using a1 by (simp add: uploaded_endGeometry_statement appends_def up_bind)
  have b1: "filter is_texture_bind (gl ?ended) =
            filter is_texture_bind (gl this) @
              [BindTexture (Texture.type (textures t)) (Texture.handle (textures t))]"
    using a1 by (simp add: appends_def Texture_bind_def is_texture_bind_def)
  have m1: "mesh ?ended = mesh this" using a1 by (simp add: appends_def)
  show ?case
    using e1 e2 l2 m2 u2 b2 u1 b1 m1
    by (simp add: b bucket_stream_def bucket_binds_def)
qed


lemma SpriteBatch_end_effect:
  assumes "length (vertices (renderer this)) = VERTEX_ELEMENTS * MAX_VERTICES"
  shows "\<exists>this'. SpriteBatch_end textures this = Some this' \<and>
           buckets this' = buckets this \<and>
           length (vertices (renderer this')) = VERTEX_ELEMENTS * MAX_VERTICES \<and>
           uploaded (gl (renderer this')) = uploaded (gl (renderer this)) @ bucket_stream (buckets this) \<and>
           filter is_texture_bind (gl (renderer this')) =
             filter is_texture_bind (gl (renderer this)) @ bucket_binds textures (buckets this)"
  using end_loop_effect [OF assms, of textures "buckets this"]
  by (auto simp: SpriteBatch_end_def)

lemma commands_for_append [simp]:
  "commands_for t (xs @ ys) = commands_for t xs @ commands_for t ys"
  by (simp add: commands_for_def)

lemma commands_for_Cons:
  "commands_for t ((t', c) # xs) = (if t' = t then c # commands_for t xs else commands_for t xs)"
  by (simp add: commands_for_def)

lemma reference_stream_Cons:
  "reference_stream (c # cs) = reference_call c [] @ reference_stream cs"
  by (simp add: reference_stream_concat)

lemma record_calls_renderer [simp]: "renderer (record_calls cs this) = renderer this"
proof (induction cs arbitrary: this)
  case Nil
  then show ?case by (simp add: record_calls_def)
next
  case (Cons p cs)
  obtain t c where p: "p = (t, c)" by (cases p)
  have "renderer (SpriteBatch_addCommand t c this) = renderer this"
    by (simp add: SpriteBatch_addCommand_def)
  then show ?case
    using Cons.IH [of "SpriteBatch_addCommand t c this"] by (simp add: record_calls_def p)
qed

text \<open>
  Claim C5. Let draw calls be recorded after \<^verbatim>\<open>begin()\<close> and replayed by
  \<^verbatim>\<open>end()\<close>. The floats uploaded by \<^verbatim>\<open>end()\<close> are, texture after texture in
  the order of first use, the vertices of the commands recorded against that texture in
  call order. So for two commands \<open>c1\<close> before \<open>c2\<close> on the same texture \<open>t\<close>, the
  vertices of \<open>c1\<close> come before those of \<open>c2\<close>, separated exactly by the vertices of
  the commands recorded on \<open>t\<close> in between. And \<^verbatim>\<open>end()\<close> binds each distinct
  texture exactly once: its texture binds are one per element of a duplicate-free list that
  holds exactly the textures recorded, however their calls were interleaved.
\<close>

theorem spritebatch_texture_order:
  assumes "length (vertices (renderer this)) = VERTEX_ELEMENTS * MAX_VERTICES"
  shows "\<exists>this'. SpriteBatch_end textures (record_calls recorded (SpriteBatch_begin this)) = Some this' \<and>
     uploaded (gl (renderer this')) =
       uploaded (gl (renderer this)) @
       concat (map (\<lambda>t. reference_stream (commands_for t recorded)) (first_uses (map fst recorded))) \<and>
     filter is_texture_bind (gl (renderer this')) =
       filter is_texture_bind (gl (renderer this)) @
       map (\<lambda>t. BindTexture (Texture.type (textures t)) (Texture.handle (textures t)))
           (first_uses (map fst recorded)) \<and>
     distinct (first_uses (map fst recorded)) \<and>
     set (first_uses (map fst recorded)) = fst ` set recorded \<and>
     (\<forall>pre t c1 mid c2 post.
        recorded = pre @ (t, c1) # mid @ (t, c2) # post \<longrightarrow>
        (\<exists>A C. uploaded (gl (renderer this')) =
           uploaded (gl (renderer this)) @ A @
           reference_stream (commands_for t pre) @ reference_call c1 [] @
           reference_stream (commands_for t mid) @ reference_call c2 [] @
           reference_stream (commands_for t post) @ C))"
proof -
  let ?batch = "record_calls recorded (SpriteBatch_begin this)"
  let ?order = "first_uses (map fst recorded)"
  let ?f = "\<lambda>t. reference_stream (commands_for t recorded)"
  have r: "renderer ?batch = renderer this"
    by (simp add: SpriteBatch_begin_def)
  have len: "length (vertices (renderer ?batch)) = VERTEX_ELEMENTS * MAX_VERTICES"
    unfolding r by (rule assms)
  from SpriteBatch_end_effect [OF len, of textures] obtain this' where
    e: "SpriteBatch_end textures ?batch = Some this'"
    and u: "uploaded (gl (renderer this')) =
              uploaded (gl (renderer ?batch)) @ bucket_stream (buckets ?batch)"
    and b: "filter is_texture_bind (gl (renderer this')) =
              filter is_texture_bind (gl (renderer ?batch)) @ bucket_binds textures (buckets ?batch)"
    by blast
  have bs: "bucket_stream (buckets ?batch) = concat (map ?f ?order)"
    by (simp add: buckets_record_calls bucket_stream_def comp_def)
  have bb: "bucket_binds textures (buckets ?batch) =
            map (\<lambda>t. BindTexture (Texture.type (textures t)) (Texture.handle (textures t))) ?order"
    by (simp add: buckets_record_calls bucket_binds_def comp_def)
  have u': "uploaded (gl (renderer this')) = uploaded (gl (renderer this)) @ concat (map ?f ?order)"
    using u bs r by simp
  have pairwise: "\<exists>A C. uploaded (gl (renderer this')) =
           uploaded (gl (renderer this)) @ A @
           reference_stream (commands_for t pre) @ reference_call c1 [] @
           reference_stream (commands_for t mid) @ reference_call c2 [] @
           reference_stream (commands_for t post) @ C"
    if split: "recorded = pre @ (t, c1) # mid @ (t, c2) # post" for pre t c1 mid c2 post
  proof -
    have "t \<in> set ?order" using split by force
    then obtain o1 o2 where o: "?order = o1 @ t # o2"
      by (meson split_list)
    have ft: "?f t = reference_stream (commands_for t pre) @ reference_call c1 [] @
           reference_stream (commands_for t mid) @ reference_call c2 [] @
           reference_stream (commands_for t post)"
      unfolding split by (simp add: commands_for_Cons reference_stream_Cons)
    have "concat (map ?f ?order) = concat (map ?f o1) @ ?f t @ concat (map ?f o2)"
      unfolding o by simp
    then have "uploaded (gl (renderer this')) =
           uploaded (gl (renderer this)) @ concat (map ?f o1) @
           reference_stream (commands_for t pre) @ reference_call c1 [] @
           reference_stream (commands_for t mid) @ reference_call c2 [] @
           reference_stream (commands_for t post) @ concat (map ?f o2)"
      using u' ft by simp
    then show ?thesis by blast
  qed
  show ?thesis
    using e u' b bb r pairwise by (intro exI [of _ this']) auto
qed

theorem spritebatch_texture_order_witness:
  "length (vertices (renderer batch0)) = VERTEX_ELEMENTS * MAX_VERTICES \<and>
   [(1, triangle0), (2, quad0), (1, quad0)] = [] @ (1, triangle0) # [(2, quad0)] @ (1, quad0) # [] \<and>
   (\<exists>this'. SpriteBatch_end textures0
               (record_calls [(1, triangle0), (2, quad0), (1, quad0)] (SpriteBatch_begin batch0)) =
             Some this' \<and>
      filter is_texture_bind (gl (renderer this')) =
        [BindTexture TEXTURE_2D (Some 1), BindTexture TEXTURE_2D (Some 2)] \<and>
      (\<exists>A C. uploaded (gl (renderer this')) =
                A @ reference_call triangle0 [] @ reference_call quad0 [] @ C))"
proof -
  have len: "length (vertices (renderer batch0)) = VERTEX_ELEMENTS * MAX_VERTICES"
    by (simp add: batch0_def renderer0_def)
  have gl0: "gl (renderer batch0) = []" by (simp add: batch0_def renderer0_def)
  have split: "[(1, triangle0), (2, quad0), (1, quad0)] =
               [] @ (1, triangle0) # [(2, quad0)] @ (1, quad0) # []"
    by simp
  obtain this' where
    e: "SpriteBatch_end textures0
          (record_calls [(1, triangle0), (2, quad0), (1, quad0)] (SpriteBatch_begin batch0)) = Some this'"
    and b: "filter is_texture_bind (gl (renderer this')) =
       filter is_texture_bind (gl (renderer batch0)) @
       map (\<lambda>t. BindTexture (Texture.type (textures0 t)) (Texture.handle (textures0 t)))
           (first_uses (map fst [(1, triangle0), (2, quad0), (1::nat, quad0)]))"
    and pw: "\<forall>pre t c1 mid c2 post.
        [(1, triangle0), (2, quad0), (1, quad0)] = pre @ (t, c1) # mid @ (t, c2) # post \<longrightarrow>
        (\<exists>A C. uploaded (gl (renderer this')) =
           uploaded (gl (renderer batch0)) @ A @
           reference_stream (commands_for t pre) @ reference_call c1 [] @
           reference_stream (commands_for t mid) @ reference_call c2 [] @
           reference_stream (commands_for t post) @ C)"
  proof -
    from spritebatch_texture_order [OF len, of textures0 "[(1, triangle0), (2, quad0), (1, quad0)]"]
    show ?thesis
      apply (elim exE conjE)
      apply (rule that)
        apply assumption
       apply assumption
      apply assumption
      done
  qed
  from pw [rule_format, OF split] obtain A C where
    "uploaded (gl (renderer this')) =
       uploaded (gl (renderer batch0)) @ A @
       reference_stream (commands_for 1 []) @ reference_call triangle0 [] @
       reference_stream (commands_for 1 [(2, quad0)]) @ reference_call quad0 [] @
       reference_stream (commands_for 1 []) @ C"
    by blast
  then have "uploaded (gl (renderer this')) = A @ reference_call triangle0 [] @ reference_call quad0 [] @ C"
    by (simp add: gl0 commands_for_def reference_stream_def)
  then have "\<exists>A C. uploaded (gl (renderer this')) =
                A @ reference_call triangle0 [] @ reference_call quad0 [] @ C"
    by blast
  moreover have "filter is_texture_bind (gl (renderer this')) =
        [BindTexture TEXTURE_2D (Some 1), BindTexture TEXTURE_2D (Some 2)]"
    using b by (simp add: gl0 textures0_def)
  ultimately have "SpriteBatch_end textures0
               (record_calls [(1, triangle0), (2, quad0), (1, quad0)] (SpriteBatch_begin batch0)) =
             Some this' \<and>
      filter is_texture_bind (gl (renderer this')) =
        [BindTexture TEXTURE_2D (Some 1), BindTexture TEXTURE_2D (Some 2)] \<and>
      (\<exists>A C. uploaded (gl (renderer this')) =
                A @ reference_call triangle0 [] @ reference_call quad0 [] @ C)"
    using e by (intro conjI)
  then have "\<exists>this'. SpriteBatch_end textures0
               (record_calls [(1, triangle0), (2, quad0), (1, quad0)] (SpriteBatch_begin batch0)) =
             Some this' \<and>
      filter is_texture_bind (gl (renderer this')) =
        [BindTexture TEXTURE_2D (Some 1), BindTexture TEXTURE_2D (Some 2)] \<and>
      (\<exists>A C. uploaded (gl (renderer this')) =
                A @ reference_call triangle0 [] @ reference_call quad0 [] @ C)"
    by (rule exI)
  with len split show ?thesis by (intro conjI)
qed

text \<open>
  Claim C10. \<^verbatim>\<open>end()\<close> leaves the buckets as they are: a second \<^verbatim>\<open>end()\<close> with no
  \<^verbatim>\<open>begin()\<close> in between replays every command again, bucket by bucket in the same
  order (the same texture binds, the same vertices uploaded); \<^verbatim>\<open>begin()\<close> empties
  the buckets.
\<close>

theorem end_keeps_buckets:
  assumes "length (vertices (renderer this)) = VERTEX_ELEMENTS * MAX_VERTICES"
  shows "\<exists>this1 this2.
     SpriteBatch_end textures this = Some this1 \<and> buckets this1 = buckets this \<and>
     SpriteBatch_end textures this1 = Some this2 \<and> buckets this2 = buckets this \<and>
     uploaded (gl (renderer this1)) =
       uploaded (gl (renderer this)) @ bucket_stream (buckets this) \<and>
     uploaded (gl (renderer this2)) =
       uploaded (gl (renderer this1)) @ bucket_stream (buckets this) \<and>
     filter is_texture_bind (gl (renderer this1)) =
       filter is_texture_bind (gl (renderer this)) @ bucket_binds textures (buckets this) \<and>
     filter is_texture_bind (gl (renderer this2)) =
       filter is_texture_bind (gl (renderer this1)) @ bucket_binds textures (buckets this) \<and>
     buckets (SpriteBatch_begin this2) = []"
proof -
  from SpriteBatch_end_effect [OF assms, of textures] obtain this1 where
    e1: "SpriteBatch_end textures this = Some this1" and b1: "buckets this1 = buckets this"
    and l1: "length (vertices (renderer this1)) = VERTEX_ELEMENTS * MAX_VERTICES"
    and u1: "uploaded (gl (renderer this1)) =
               uploaded (gl (renderer this)) @ bucket_stream (buckets this)"
    and t1: "filter is_texture_bind (gl (renderer this1)) =
               filter is_texture_bind (gl (renderer this)) @ bucket_binds textures (buckets this)"
    by blast
  from SpriteBatch_end_effect [OF l1, of textures] obtain this2 where
    e2: "SpriteBatch_end textures this1 = Some this2" and b2: "buckets this2 = buckets this1"
    and u2: "uploaded (gl (renderer this2)) =
               uploaded (gl (renderer this1)) @ bucket_stream (buckets this1)"
    and t2: "filter is_texture_bind (gl (renderer this2)) =
               filter is_texture_bind (gl (renderer this1)) @ bucket_binds textures (buckets this1)"
    by blast
  have "buckets (SpriteBatch_begin this2) = []" by (simp add: SpriteBatch_begin_def)
  then show ?thesis
    using e1 b1 u1 t1 e2 b2 u2 t2 by simp
qed

theorem end_keeps_buckets_witness:
  "length (vertices (renderer (batch0\<lparr>buckets := [(1, [triangle0, quad0]), (2, [quad0])]\<rparr>))) =
     VERTEX_ELEMENTS * MAX_VERTICES \<and>
   (\<exists>this1 this2.
     SpriteBatch_end textures0 (batch0\<lparr>buckets := [(1, [triangle0, quad0]), (2, [quad0])]\<rparr>) = Some this1 \<and>
     buckets this1 = [(1, [triangle0, quad0]), (2, [quad0])] \<and>
     SpriteBatch_end textures0 this1 = Some this2 \<and>
     buckets this2 = [(1, [triangle0, quad0]), (2, [quad0])] \<and>
     uploaded (gl (renderer this2)) =
       reference_stream [triangle0, quad0] @ reference_stream [quad0] @
       reference_stream [triangle0, quad0] @ reference_stream [quad0] \<and>
     filter is_texture_bind (gl (renderer this2)) =
       [BindTexture TEXTURE_2D (Some 1), BindTexture TEXTURE_2D (Some 2),
        BindTexture TEXTURE_2D (Some 1), BindTexture TEXTURE_2D (Some 2)])"
proof -
  let ?b = "batch0\<lparr>buckets := [(1, [triangle0, quad0]), (2, [quad0])]\<rparr>"
  have len: "length (vertices (renderer ?b)) = VERTEX_ELEMENTS * MAX_VERTICES"
    by (simp add: batch0_def renderer0_def)
  have gl0: "gl (renderer ?b) = []" by (simp add: batch0_def renderer0_def)
  have bk: "buckets ?b = [(1, [triangle0, quad0]), (2, [quad0])]" by simp
  have st: "bucket_stream [(1, [triangle0, quad0]), (2, [quad0])] =
            reference_stream [triangle0, quad0] @ reference_stream [quad0]"
    by (simp add: bucket_stream_def)
  have bi: "bucket_binds textures0 [(1, [triangle0, quad0]), (2, [quad0])] =
            [BindTexture TEXTURE_2D (Some 1), BindTexture TEXTURE_2D (Some 2)]"
    by (simp add: bucket_binds_def textures0_def)
  from end_keeps_buckets [OF len, of textures0] obtain this1 this2 where
    "SpriteBatch_end textures0 ?b = Some this1" "buckets this1 = buckets ?b"
    "SpriteBatch_end textures0 this1 = Some this2" "buckets this2 = buckets ?b"
    "uploaded (gl (renderer this1)) = uploaded (gl (renderer ?b)) @ bucket_stream (buckets ?b)"
    "uploaded (gl (renderer this2)) = uploaded (gl (renderer this1)) @ bucket_stream (buckets ?b)"
    "filter is_texture_bind (gl (renderer this1)) =
       filter is_texture_bind (gl (renderer ?b)) @ bucket_binds textures0 (buckets ?b)"
    "filter is_texture_bind (gl (renderer this2)) =
       filter is_texture_bind (gl (renderer this1)) @ bucket_binds textures0 (buckets ?b)"
    by blast
  then have "SpriteBatch_end textures0 ?b = Some this1 \<and>
     buckets this1 = [(1, [triangle0, quad0]), (2, [quad0])] \<and>
     SpriteBatch_end textures0 this1 = Some this2 \<and>
     buckets this2 = [(1, [triangle0, quad0]), (2, [quad0])] \<and>
     uploaded (gl (renderer this2)) =
       reference_stream [triangle0, quad0] @ reference_stream [quad0] @
       reference_stream [triangle0, quad0] @ reference_stream [quad0] \<and>
     filter is_texture_bind (gl (renderer this2)) =
       [BindTexture TEXTURE_2D (Some 1), BindTexture TEXTURE_2D (Some 2),
        BindTexture TEXTURE_2D (Some 1), BindTexture TEXTURE_2D (Some 2)]"
    unfolding bk st bi gl0 by simp
  then have "\<exists>this2. SpriteBatch_end textures0 ?b = Some this1 \<and>
     buckets this1 = [(1, [triangle0, quad0]), (2, [quad0])] \<and>
     SpriteBatch_end textures0 this1 = Some this2 \<and>
     buckets this2 = [(1, [triangle0, quad0]), (2, [quad0])] \<and>
     uploaded (gl (renderer this2)) =
       reference_stream [triangle0, quad0] @ reference_stream [quad0] @
       reference_stream [triangle0, quad0] @ reference_stream [quad0] \<and>
     filter is_texture_bind (gl (renderer this2)) =
       [BindTexture TEXTURE_2D (Some 1), BindTexture TEXTURE_2D (Some 2),
        BindTexture TEXTURE_2D (Some 1), BindTexture TEXTURE_2D (Some 2)]"
    by (rule exI)
  then have "\<exists>this1 this2. SpriteBatch_end textures0 ?b = Some this1 \<and>
     buckets this1 = [(1, [triangle0, quad0]), (2, [quad0])] \<and>
     SpriteBatch_end textures0 this1 = Some this2 \<and>
     buckets this2 = [(1, [triangle0, quad0]), (2, [quad0])] \<and>
     uploaded (gl (renderer this2)) =
       reference_stream [triangle0, quad0] @ reference_stream [quad0] @
       reference_stream [triangle0, quad0] @ reference_stream [quad0] \<and>
     filter is_texture_bind (gl (renderer this2)) =
       [BindTexture TEXTURE_2D (Some 1), BindTexture TEXTURE_2D (Some 2),
        BindTexture TEXTURE_2D (Some 1), BindTexture TEXTURE_2D (Some 2)]"
    by (rule exI)
  with len show ?thesis by (rule conjI)
qed

section \<open>Renderer: text\<close>

text \<open>
  No emitter ever throws: the flush is taken only with at least 65532 vertices
  accumulated, where \<^verbatim>\<open>endGeometry()\<close> does not take its early return.
\<close>

lemma drawTriangle_total:
  "\<exists>this'. Renderer_drawTriangle ax ay au av bx by bu bv cx cy cu cv r g b a this = Some this'"
  by (simp add: Renderer_drawTriangle_def Renderer_endGeometry_def MAX_VERTICES_def)

lemma drawQuad_total:
  "\<exists>this'. Renderer_drawQuad ax ay au av bx by bu bv cx cy cu cv dx dy du dv r g b a this = Some this'"
proof -
  obtain t1 where "Renderer_drawTriangle ax ay au av bx by bu bv cx cy cu cv r g b a this = Some t1"
    using drawTriangle_total by blast
  moreover obtain t2 where "Renderer_drawTriangle ax ay au av cx cy cu cv dx dy du dv r g b a t1 = Some t2"
    using drawTriangle_total by blast
  ultimately show ?thesis by (simp add: Renderer_drawQuad_def)
qed

lemma drawChar_total:
  "\<exists>this'. Renderer_drawChar font x y charCode' size' r g b a this = Some this'"
  by (simp add: Renderer_drawChar_def Renderer_drawRectangle_def drawQuad_total split: option.split)

lemma drawString_loop_offset:
  "\<exists>this'. drawString_loop font x y size' r g b a str offset this =
     Some (this', fold (\<lambda>charCode' width'.
                          case get_property (glyphs font) (real charCode') of
                            None \<Rightarrow> width'
                          | Some glyph \<Rightarrow> width' + size' * advance glyph) str offset)"
proof (induction str arbitrary: offset this)
  case Nil
  then show ?case by simp
next
  case (Cons c str)
  show ?case
  proof (cases "get_property (glyphs font) (real c)")
    case None
    then show ?thesis using Cons.IH [of offset this] by simp
  next
    case (Some glyph)
    obtain t1 where e1: "Renderer_drawChar font (x + offset) y (real c) size' r g b a this = Some t1"
      using drawChar_total by blast
    show ?thesis
      using Some e1 Cons.IH [of "offset + size' * advance glyph" t1] by simp
  qed
qed

lemma measure_fold_sum:
  "fold (\<lambda>charCode' width'.
           case get_property (glyphs font) (real charCode') of
             None \<Rightarrow> width'
           | Some glyph \<Rightarrow> width' + size' * advance glyph) str w =
   w + (\<Sum>c\<leftarrow>str. case get_property (glyphs font) (real c) of
                      None \<Rightarrow> 0
                    | Some glyph \<Rightarrow> size' * advance glyph)"
proof (induction str arbitrary: w)
  case Nil
  then show ?case by simp
next
  case (Cons c str)
  then show ?case by (cases "get_property (glyphs font) (real c)") simp_all
qed

lemma measureString_filter:
  "Renderer_measureString font (filter (has_glyph font) str) size' =
   Renderer_measureString font str size'"
proof -
  have "fold (\<lambda>charCode' width'.
           case get_property (glyphs font) (real charCode') of
             None \<Rightarrow> width'
           | Some glyph \<Rightarrow> width' + size' * advance glyph) (filter (has_glyph font) str) w =
        fold (\<lambda>charCode' width'.
           case get_property (glyphs font) (real charCode') of
             None \<Rightarrow> width'
           | Some glyph \<Rightarrow> width' + size' * advance glyph) str w" for w
    by (induction str arbitrary: w) (auto simp: has_glyph_def)
  then show ?thesis by (simp add: Renderer_measureString_def)
qed

lemma drawString_loop_filter:
  "drawString_loop font x y size' r g b a (filter (has_glyph font) str) offset this =
   drawString_loop font x y size' r g b a str offset this"
proof (induction str arbitrary: offset this)
  case Nil
  then show ?case by simp
next
  case (Cons c str)
  show ?case
  proof (cases "get_property (glyphs font) (real c)")
    case None
    then show ?thesis using Cons.IH by (simp add: has_glyph_def)
  next
    case (Some glyph)
    then show ?thesis using Cons.IH by (simp add: has_glyph_def split: option.split)
  qed
qed

text \<open>
  Claim C6. \<^verbatim>\<open>measureString(font, s, size)\<close> is the sum of
  \<open>size * glyph.advance\<close> over the code units of \<open>s\<close> that have a glyph in the font;
  a code unit without a glyph contributes 0. Both \<^verbatim>\<open>measureString\<close> and
  \<^verbatim>\<open>drawString\<close> skip such code units: each gives on \<open>s\<close> what it gives on
  \<open>s\<close> with them removed, so \<^verbatim>\<open>drawString\<close> emits no geometry for them and does
  not move the pen. And \<^verbatim>\<open>drawString\<close> never throws and ends with its pen offset
  equal to \<^verbatim>\<open>measureString(font, s, size)\<close>. (Both loops add the same terms in the
  same order; the sum notation is the reals' sum.)
\<close>

theorem measureString_is_pen_advance:
  "Renderer_measureString font str size' =
     (\<Sum>c\<leftarrow>filter (has_glyph font) str. size' * advance (the (get_property (glyphs font) (real c)))) \<and>
   Renderer_measureString font str size' =
     (\<Sum>c\<leftarrow>str. case get_property (glyphs font) (real c) of
                     None \<Rightarrow> 0
                   | Some glyph \<Rightarrow> size' * advance glyph) \<and>
   Renderer_measureString font (filter (has_glyph font) str) size' =
     Renderer_measureString font str size' \<and>
   Renderer_drawString font x y (filter (has_glyph font) str) size' r g b a this =
     Renderer_drawString font x y str size' r g b a this \<and>
   (\<exists>this'. drawString_loop font x y size' r g b a str 0 this =
              Some (this', Renderer_measureString font str size'))"
proof -
  have known: "(\<Sum>c\<leftarrow>str. case get_property (glyphs font) (real c) of
                     None \<Rightarrow> 0
                   | Some glyph \<Rightarrow> size' * advance glyph) =
        (\<Sum>c\<leftarrow>filter (has_glyph font) str. size' * advance (the (get_property (glyphs font) (real c))))"
    by (induction str) (auto simp: has_glyph_def)
  have total: "Renderer_measureString font str size' =
     (\<Sum>c\<leftarrow>str. case get_property (glyphs font) (real c) of
                     None \<Rightarrow> 0
                   | Some glyph \<Rightarrow> size' * advance glyph)"
    by (simp add: Renderer_measureString_def measure_fold_sum)
  have pen: "\<exists>this'. drawString_loop font x y size' r g b a str 0 this =
              Some (this', Renderer_measureString font str size')"
    unfolding Renderer_measureString_def by (rule drawString_loop_offset)
  have draw: "Renderer_drawString font x y (filter (has_glyph font) str) size' r g b a this =
     Renderer_drawString font x y str size' r g b a this"
    by (simp add: Renderer_drawString_def drawString_loop_filter)
  show ?thesis
    using total known pen draw measureString_filter [of font str size'] by simp
qed

section \<open>Font: the binary table\<close>

lemma length_glyph_floats [simp]: "length (glyph_floats glyph) = 10"
  by (simp add: glyph_floats_def)






lemma length_Float32Array_from [simp]: "length (Float32Array_from data) = length data"
  by (simp add: Float32Array_from_def)

lemma Float32Array_from_Nil [simp]: "Float32Array_from data = [] \<longleftrightarrow> data = []"
  by (simp add: Float32Array_from_def)



lemma length_rounded_table [simp]: "length (rounded_table table) = length table"
  by (simp add: rounded_table_def)


lemma length_concat_glyph_floats [simp]:
  "length (concat (map glyph_floats gs)) = 10 * length gs"
  by (induction gs) simp_all







text \<open>
  The two hypotheses of the round trip hold of every table the class builds from a
  fresh font.
\<close>

lemma keys_set_property:
  "set (map fst (set_property k v table)) = insert k (set (map fst table))"
proof (induction table)
  case Nil
  then show ?case by simp
next
  case (Cons p table)
  obtain k' v' where p: "p = (k', v')" by (cases p)
  show ?case
    using Cons.IH by (simp add: p insert_commute)
qed

lemma set_property_order:
  "property_order (map fst table) \<Longrightarrow> property_order (map fst (set_property k v table))"
proof (induction table)
  case Nil
  then show ?case by simp
next
  case (Cons p table)
  obtain k' v' where p: "p = (k', v')" by (cases p)
  have tail: "property_order (map fst (set_property k v table))"
    using Cons by simp
  show ?case
    using Cons.prems tail keys_set_property [of k v table]
    by (auto simp: p list_all_iff split: if_splits)
qed

lemma property_order_distinct: "property_order ks \<Longrightarrow> distinct ks"
  by (induction ks) auto

lemma set_property_keyed:
  "keyed_by_charCode table \<Longrightarrow> charCode v = k \<Longrightarrow> keyed_by_charCode (set_property k v table)"
  by (induction table) (auto simp: keyed_by_charCode_def)

lemma deserializeData_loop_invariant:
  "deserializeData_loop count buffer i index this = Some this' \<Longrightarrow>
   keyed_by_charCode (glyphs this) \<Longrightarrow> property_order (map fst (glyphs this)) \<Longrightarrow>
   keyed_by_charCode (glyphs this') \<and> property_order (map fst (glyphs this'))"
proof (induction count buffer i index this rule: deserializeData_loop.induct)
  case (1 count buffer i index this)
  show ?case
  proof (cases "real i < count")
    case False
    then show ?thesis using "1.prems" by simp
  next
    case True
    then obtain glyph where g: "read_glyph buffer index = Some glyph"
      using "1.prems"(1) by (cases "read_glyph buffer index") simp_all
    let ?next = "this\<lparr>glyphs := set_property (charCode glyph) glyph (glyphs this)\<rparr>"
    have run: "deserializeData_loop count buffer (i + 1) (index + 10) ?next = Some this'"
      using "1.prems"(1) True g by simp
    have k: "keyed_by_charCode (glyphs ?next)"
      using "1.prems"(2) by (simp add: set_property_keyed)
    have o: "property_order (map fst (glyphs ?next))"
      using "1.prems"(3) by (simp add: set_property_order)
    show ?thesis
      by (rule "1.IH" [OF True g run k o])
  qed
qed

lemma Font_deserializeData_invariant:
  assumes "Font_deserializeData data Font_new = Some this'"
  shows "keyed_by_charCode (glyphs this') \<and> distinct (map fst (glyphs this'))"
proof -
  have k0: "keyed_by_charCode (glyphs Font_new)" by (simp add: Font_new_def keyed_by_charCode_def)
  have o0: "property_order (map fst (glyphs Font_new))" by (simp add: Font_new_def)
  show ?thesis
  proof (cases "0 < length data")
    case True
    then have "deserializeData_loop (Float32Array_from data ! 0) (Float32Array_from data) 0 1
                 Font_new = Some this'"
      using assms
      by (simp add: Font_deserializeData_def Let_def del: deserializeData_loop.simps)
    from deserializeData_loop_invariant [OF this k0 o0]
    show ?thesis by (simp add: property_order_distinct)
  next
    case False
    then have "this' = Font_new" using assms by (simp add: Font_deserializeData_def Let_def)
    then show ?thesis by (simp add: Font_new_def keyed_by_charCode_def)
  qed
qed



lemma font0_round_trip_exact:
  "Font_deserializeData (Font_serializeData font0) Font_new = Some font0"
  by (simp add: Font_deserializeData_def Font_serializeData_def Float32Array_from_def Let_def
      object_values_def font0_def Font_new_def read_glyph_def is_array_index_def fround_values)


section \<open>Framebuffer: attachments\<close>

lemma object_delete_effect:
  "object_delete (obj, c) = (obj', c') \<Longrightarrow>
   object_handle obj' = None \<and> c' = c @ object_release obj"
  by (cases obj)
    (auto simp: Texture_delete_def Renderbuffer_delete_def object_release_def split: option.splits)

lemma take_six:
  "take k [a, b, c, d, e, f] =
     (if k = 0 then [] else if k = 1 then [a] else if k = 2 then [a, b] else if k = 3 then [a, b, c]
      else if k = 4 then [a, b, c, d] else if k = 5 then [a, b, c, d, e] else [a, b, c, d, e, f])"
proof -
  consider "k = 0" | "k = 1" | "k = 2" | "k = 3" | "k = 4" | "k = 5" | "6 \<le> k" by linarith
  then show ?thesis by cases simp_all
qed

lemma attachTexture_replaces:
  "replaces_attachment Framebuffer_attachTexture attachTexture_body
     (\<lambda>h. FramebufferTexture2D FRAMEBUFFER COLOR_ATTACHMENT0 TEXTURE_2D h 0)"
  unfolding replaces_attachment_def Let_def
proof (intro allI)
  fix new and s :: fb_state
  let ?b = "object_bind (objects s new) (Framebuffer_bind (framebuffer s) (calls s))"
  let ?pre = "[FramebufferTexture2D FRAMEBUFFER COLOR_ATTACHMENT0 TEXTURE_2D (object_handle (objects s new)) 0,
            BindFramebuffer FRAMEBUFFER None]"
  show "attachment (framebuffer (Framebuffer_attachTexture new s)) = Some new \<and>
        (case attachment (framebuffer s) of
           None \<Rightarrow> objects (Framebuffer_attachTexture new s) = objects s
         | Some a \<Rightarrow>
             object_handle (objects (Framebuffer_attachTexture new s) a) = None \<and>
             objects (Framebuffer_attachTexture new s) =
               (objects s)(a := objects (Framebuffer_attachTexture new s) a)) \<and>
        calls (Framebuffer_attachTexture new s) =
          ?b @ ?pre @ (case attachment (framebuffer s) of None \<Rightarrow> [] | Some a \<Rightarrow> object_release (objects s a)) \<and>
        state_after (length (attachTexture_body new s)) (attachTexture_body new s) s =
          Framebuffer_attachTexture new s \<and>
        (\<forall>k. attachment (framebuffer (state_after k (attachTexture_body new s) s)) =
               (if k < 4 then attachment (framebuffer s) else Some new))"
  proof (cases "attachment (framebuffer s)")
    case None
    then show ?thesis
      by (simp add: Framebuffer_attachTexture_def attachTexture_body_def run_statements_def
          state_after_def take_six Framebuffer_unbind_def Let_def)
  next
    case (Some a)
    obtain obj' c' where del: "object_delete (objects s a, ?b @ ?pre) = (obj', c')"
      by (metis surj_pair)
    note eff = object_delete_effect [OF del]
    show ?thesis
      using Some del eff
      by (simp add: Framebuffer_attachTexture_def attachTexture_body_def run_statements_def
          state_after_def take_six Framebuffer_unbind_def Let_def)
  qed
qed

lemma attachRenderbuffer_replaces:
  "replaces_attachment Framebuffer_attachRenderbuffer attachRenderbuffer_body
     (\<lambda>h. FramebufferRenderbuffer FRAMEBUFFER COLOR_ATTACHMENT0 RENDERBUFFER h)"
  unfolding replaces_attachment_def Let_def
proof (intro allI)
  fix new and s :: fb_state
  let ?b = "object_bind (objects s new) (Framebuffer_bind (framebuffer s) (calls s))"
  let ?pre = "[FramebufferRenderbuffer FRAMEBUFFER COLOR_ATTACHMENT0 RENDERBUFFER (object_handle (objects s new)),
            BindFramebuffer FRAMEBUFFER None]"
  show "attachment (framebuffer (Framebuffer_attachRenderbuffer new s)) = Some new \<and>
        (case attachment (framebuffer s) of
           None \<Rightarrow> objects (Framebuffer_attachRenderbuffer new s) = objects s
         | Some a \<Rightarrow>
             object_handle (objects (Framebuffer_attachRenderbuffer new s) a) = None \<and>
             objects (Framebuffer_attachRenderbuffer new s) =
               (objects s)(a := objects (Framebuffer_attachRenderbuffer new s) a)) \<and>
        calls (Framebuffer_attachRenderbuffer new s) =
          ?b @ ?pre @ (case attachment (framebuffer s) of None \<Rightarrow> [] | Some a \<Rightarrow> object_release (objects s a)) \<and>
        state_after (length (attachRenderbuffer_body new s)) (attachRenderbuffer_body new s) s =
          Framebuffer_attachRenderbuffer new s \<and>
        (\<forall>k. attachment (framebuffer (state_after k (attachRenderbuffer_body new s) s)) =
               (if k < 4 then attachment (framebuffer s) else Some new))"
  proof (cases "attachment (framebuffer s)")
    case None
    then show ?thesis
      by (simp add: Framebuffer_attachRenderbuffer_def attachRenderbuffer_body_def run_statements_def
          state_after_def take_six Framebuffer_unbind_def Let_def)
  next
    case (Some a)
    obtain obj' c' where del: "object_delete (objects s a, ?b @ ?pre) = (obj', c')"
      by (metis surj_pair)
    note eff = object_delete_effect [OF del]
    show ?thesis
      using Some del eff
      by (simp add: Framebuffer_attachRenderbuffer_def attachRenderbuffer_body_def run_statements_def
          state_after_def take_six Framebuffer_unbind_def Let_def)
  qed
qed

text \<open>
  Attaching the texture that is already attached deletes it: the framebuffer then holds
  the texture it was given, with a null handle.
\<close>

lemma attachTexture_same_texture:
  assumes "attachment (framebuffer s) = Some texture"
  shows "attachment (framebuffer (Framebuffer_attachTexture texture s)) = Some texture \<and>
         object_handle (objects (Framebuffer_attachTexture texture s) texture) = None"
  using attachTexture_replaces [unfolded replaces_attachment_def Let_def, rule_format, of texture s]
    assms
  by simp

text \<open>
  Claim C8. After \<^verbatim>\<open>attachTexture\<close> or \<^verbatim>\<open>attachRenderbuffer\<close> the framebuffer
  holds exactly one attachment, the new one, and the attachment held before, if any, has had
  its \<^verbatim>\<open>delete()\<close> run: its handle is null (and its release call was issued if the
  handle was live). The framebuffer has a single attachment field, which at every point of
  the method holds one reference, so it never holds two attachments at once.
\<close>

theorem attach_replaces_attachment:
  "replaces_attachment Framebuffer_attachTexture attachTexture_body
     (\<lambda>h. FramebufferTexture2D FRAMEBUFFER COLOR_ATTACHMENT0 TEXTURE_2D h 0) \<and>
   replaces_attachment Framebuffer_attachRenderbuffer attachRenderbuffer_body
     (\<lambda>h. FramebufferRenderbuffer FRAMEBUFFER COLOR_ATTACHMENT0 RENDERBUFFER h)"
  by (intro conjI attachTexture_replaces attachRenderbuffer_replaces)

end
